theory Spec2Isabelle
  imports Complex_Main "HOL-Library.Word"
begin

section \<open>Data model of gdg.go\<close>

text \<open>
  Go's \<^verbatim>\<open>uint\<close> and \<^verbatim>\<open>int\<close> are 64 bits wide on the platforms the package is built for.
  \<^verbatim>\<open>uint\<close> is a \<open>64 word\<close>: \<open>+\<close>, \<open>-\<close> and \<open>*\<close> wrap around. The conversion \<^verbatim>\<open>int(u)\<close> keeps
  the bits and reads them as two's complement, which is \<open>sint\<close>.
\<close>

type_synonym uint = "64 word"

type_synonym ImageFormat = string

definition JPEG :: ImageFormat where
  "JPEG = ''jpeg''"

definition PNG :: ImageFormat where
  "PNG = ''png''"

text \<open>A Go \<^verbatim>\<open>error\<close> is its message; \<^verbatim>\<open>nil\<close> is \<open>None\<close>.\<close>

type_synonym error = string

type_synonym bytes = "8 word list"

text \<open>The \<^verbatim>\<open>Saver\<close> interface: the answer of \<^verbatim>\<open>SaveFile(path, r)\<close> for the bytes read from \<^verbatim>\<open>r\<close>.\<close>

type_synonym Saver = "string \<Rightarrow> bytes \<Rightarrow> error option"

record Option =
  DirPath :: string
  Saver :: Saver
  Format :: ImageFormat
  Overlap :: uint
  TileSize :: uint
  Width :: uint
  Height :: uint

text \<open>\<^verbatim>\<open>image.Rectangle\<close>: the points \<^verbatim>\<open>Min\<close> and \<^verbatim>\<open>Max\<close>, each with \<^verbatim>\<open>int\<close> fields X and Y.\<close>

record Rectangle =
  Min_X :: int
  Min_Y :: int
  Max_X :: int
  Max_Y :: int

definition ZR :: Rectangle where
  "ZR = \<lparr>Min_X = 0, Min_Y = 0, Max_X = 0, Max_Y = 0\<rparr>"

section \<open>float64 arithmetic\<close>

text \<open>
  \<^verbatim>\<open>GetMaxLevel\<close>, \<^verbatim>\<open>GetLevelGrids\<close> and the halving in \<^verbatim>\<open>Generate\<close> compute in \<^verbatim>\<open>float64\<close>.
  A finite \<^verbatim>\<open>float64\<close> is the real number it denotes; \<open>f64\<close> adds the infinities and NaN
  that a division by zero and the logarithm of zero produce.

  \<open>round53\<close> is IEEE 754 rounding to the nearest number with a 53 bit significand, ties
  to an even significand: with \<open>e\<close> the binary exponent of \<open>x\<close>, the representable numbers
  around \<open>x\<close> are the multiples of \<open>2 ^ (e - 52)\<close>. Exponent range limits play no role:
  every value rounded in this program is 0 or lies between \<open>2 ^ -64\<close> and \<open>2 ^ 64\<close>.
\<close>

datatype f64 = Num real | PosInf | NegInf | NaN

definition rne :: "real \<Rightarrow> int" where
  "rne y = (let f = \<lfloor>y\<rfloor>; d = y - of_int f
            in if d < 1 / 2 then f else if 1 / 2 < d then f + 1
               else if even f then f else f + 1)"

definition round53 :: "real \<Rightarrow> real" where
  "round53 x =
     (if x = 0 then 0
      else (let e = \<lfloor>log 2 \<bar>x\<bar>\<rfloor>
            in if e \<le> 52 then of_int (rne (x * 2 ^ nat (52 - e))) / 2 ^ nat (52 - e)
               else of_int (rne (x / 2 ^ nat (e - 52))) * 2 ^ nat (e - 52)))"

text \<open>The conversion \<^verbatim>\<open>float64(u)\<close> of a \<^verbatim>\<open>uint\<close>: the nearest \<^verbatim>\<open>float64\<close>, always finite.\<close>

definition float64 :: "uint \<Rightarrow> real" where
  "float64 u = round53 (real (unat u))"

text \<open>\<^verbatim>\<open>a / b\<close> on finite operands, of which the divisor is never negative here.\<close>

definition f64_div :: "real \<Rightarrow> real \<Rightarrow> f64" where
  "f64_div a b =
     (if b = 0 then (if a = 0 then NaN else if 0 < a then PosInf else NegInf)
      else Num (round53 (a / b)))"

definition math_Max :: "real \<Rightarrow> real \<Rightarrow> real" where
  "math_Max a b = max a b"

text \<open>
  \<^verbatim>\<open>math.Log2\<close> of the standard library, taken as correctly rounded: the \<^verbatim>\<open>float64\<close>
  nearest to the binary logarithm (the library documents \<^verbatim>\<open>Log2(0) = -Inf\<close>,
  \<^verbatim>\<open>Log2(x < 0) = NaN\<close>, and makes exact powers of two give an exact answer).
\<close>

definition math_Log2 :: "real \<Rightarrow> f64" where
  "math_Log2 x = (if x < 0 then NaN else if x = 0 then NegInf else Num (round53 (log 2 x)))"

definition math_Ceil :: "f64 \<Rightarrow> f64" where
  "math_Ceil f = (case f of Num r \<Rightarrow> Num (of_int \<lceil>r\<rceil>) | _ \<Rightarrow> f)"

text \<open>
  The conversion \<^verbatim>\<open>uint(f)\<close> discards the fraction. Where the value does not fit (or is
  not finite) the language leaves the result to the implementation: the model takes that
  choice as the parameter \<open>cv\<close>.
\<close>

definition trunc :: "real \<Rightarrow> int" where
  "trunc r = (if 0 \<le> r then \<lfloor>r\<rfloor> else \<lceil>r\<rceil>)"

definition to_uint :: "(f64 \<Rightarrow> uint) \<Rightarrow> f64 \<Rightarrow> uint" where
  "to_uint cv f =
     (case f of
        Num r \<Rightarrow> if - 1 < r \<and> r < 2 ^ 64 then word_of_int (trunc r) else cv f
      | _ \<Rightarrow> cv f)"

section \<open>Geometry\<close>

definition GetMaxLevel :: "(f64 \<Rightarrow> uint) \<Rightarrow> uint \<Rightarrow> uint \<Rightarrow> uint" where
  "GetMaxLevel cv width height =
     to_uint cv (math_Ceil (math_Log2 (math_Max (float64 width) (float64 height))))"

definition GetLevelGrids :: "(f64 \<Rightarrow> uint) \<Rightarrow> uint \<Rightarrow> uint \<Rightarrow> uint \<Rightarrow> uint \<Rightarrow> uint \<times> uint" where
  "GetLevelGrids cv level width height tileSize =
     (to_uint cv (math_Ceil (f64_div (float64 width) (float64 tileSize))),
      to_uint cv (math_Ceil (f64_div (float64 height) (float64 tileSize))))"

text \<open>
  \<^verbatim>\<open>ComputeTileRect\<close>: the named result \<^verbatim>\<open>rect\<close> starts as the zero rectangle; the horizontal
  branch assigns \<^verbatim>\<open>Min.X\<close> and \<^verbatim>\<open>Max.X\<close>, the vertical one \<^verbatim>\<open>Min.Y\<close> and \<^verbatim>\<open>Max.Y\<close>. All
  arithmetic is on \<^verbatim>\<open>uint\<close>; each edge is converted with \<^verbatim>\<open>int(...)\<close>.
\<close>

definition ComputeTileRect :: "Option \<Rightarrow> uint \<Rightarrow> uint \<Rightarrow> uint \<Rightarrow> uint \<Rightarrow> Rectangle" where
  "ComputeTileRect opt col row maxCol maxRow =
     (let rect = ZR;
          rect = (if col = 0 then rect\<lparr>Max_X := sint (TileSize opt + Overlap opt)\<rparr>
                  else (let rect = rect\<lparr>Min_X := sint (col * TileSize opt - Overlap opt)\<rparr>
                        in if col = maxCol - 1 then rect\<lparr>Max_X := sint (Width opt)\<rparr>
                           else rect\<lparr>Max_X := sint ((col + 1) * TileSize opt + Overlap opt)\<rparr>));
          rect = (if row = 0 then rect\<lparr>Max_Y := sint (TileSize opt + Overlap opt)\<rparr>
                  else (let rect = rect\<lparr>Min_Y := sint (row * TileSize opt - Overlap opt)\<rparr>
                        in if row = maxRow - 1 then rect\<lparr>Max_Y := sint (Height opt)\<rparr>
                           else rect\<lparr>Max_Y := sint ((row + 1) * TileSize opt + Overlap opt)\<rparr>))
      in rect)"

section \<open>Tile tasks\<close>

text \<open>
  The image type and the library calls on it stay abstract: \<^verbatim>\<open>imaging.Crop\<close>,
  \<^verbatim>\<open>imaging.Thumbnail\<close> (with the Box filter), \<^verbatim>\<open>jpeg.Encode\<close> (default quality) and
  \<^verbatim>\<open>png.Encode\<close>, the encoders giving the error or the bytes written to the buffer.
  \<open>uint_conv\<close> is the platform's conversion \<^verbatim>\<open>uint(f)\<close> of a value that does not fit. \<open>sched\<close>
  is the scheduler, as far as the program can observe it: \<open>sched level\<close> is how many more of
  the tile tasks started so far have returned when the walker calls \<^verbatim>\<open>wg.Add\<close> for that level.
\<close>

record 'img extern =
  uint_conv :: "f64 \<Rightarrow> uint"
  sched :: "uint \<Rightarrow> nat"
  Crop :: "'img \<Rightarrow> Rectangle \<Rightarrow> 'img"
  Thumbnail :: "'img \<Rightarrow> int \<Rightarrow> int \<Rightarrow> 'img"
  jpeg_Encode :: "'img \<Rightarrow> error + bytes"
  png_Encode :: "'img \<Rightarrow> error + bytes"

text \<open>\<^verbatim>\<open>%d\<close> of a \<^verbatim>\<open>uint\<close>, and the path \<^verbatim>\<open>"%s/%d/%d_%d.%s"\<close>.\<close>

fun decimal :: "nat \<Rightarrow> string" where
  "decimal n =
     (if n < 10 then [''0123456789'' ! n]
      else decimal (n div 10) @ [''0123456789'' ! (n mod 10)])"

declare decimal.simps [simp del]

definition tile_path :: "string \<Rightarrow> uint \<Rightarrow> uint \<Rightarrow> uint \<Rightarrow> ImageFormat \<Rightarrow> string" where
  "tile_path dirPath level col row format =
     dirPath @ ''/'' @ decimal (unat level) @ ''/'' @ decimal (unat col) @ ''_''
       @ decimal (unat row) @ ''.'' @ format"

text \<open>
  What one run of \<^verbatim>\<open>SaveTile\<close> does: the calls it makes to the saver (path and bytes) and
  the error it returns. A format that is neither \<^verbatim>\<open>JPEG\<close> nor \<^verbatim>\<open>PNG\<close> matches no case of
  the switch, so \<^verbatim>\<open>err\<close> stays nil and the buffer empty. The deferred \<^verbatim>\<open>wg.Done()\<close> and
  \<^verbatim>\<open>runtime.GC()\<close> run on every return and do not change the result.
\<close>

record save_result =
  stored :: "(string \<times> bytes) list"
  returned :: "error option"

definition SaveTile ::
  "'img extern \<Rightarrow> string \<Rightarrow> Saver \<Rightarrow> uint \<Rightarrow> uint \<Rightarrow> uint \<Rightarrow> ImageFormat \<Rightarrow> 'img \<Rightarrow> save_result" where
  "SaveTile ext dirPath saver level col row format m =
     (let imgPath = tile_path dirPath level col row format;
          enc = (if format = JPEG then jpeg_Encode ext m
                 else if format = PNG then png_Encode ext m
                 else Inr [])
      in case enc of
           Inl err \<Rightarrow> \<lparr>stored = [], returned = Some err\<rparr>
         | Inr buffer \<Rightarrow>
             (case saver imgPath buffer of
                Some err \<Rightarrow> \<lparr>stored = [(imgPath, buffer)], returned = Some err\<rparr>
              | None \<Rightarrow> \<lparr>stored = [(imgPath, buffer)], returned = None\<rparr>))"

text \<open>A tile task is one \<^verbatim>\<open>go SaveTile(...)\<close> statement with its arguments, evaluated when
  the statement runs.\<close>

record 'img tile_task =
  t_dirPath :: string
  t_saver :: Saver
  t_level :: uint
  t_col :: uint
  t_row :: uint
  t_format :: ImageFormat
  t_m :: 'img

definition run_task :: "'img extern \<Rightarrow> 'img tile_task \<Rightarrow> save_result" where
  "run_task ext t =
     SaveTile ext (t_dirPath t) (t_saver t) (t_level t) (t_col t) (t_row t) (t_format t) (t_m t)"

section \<open>Generate\<close>

text \<open>
  The two inner loops, \<^verbatim>\<open>for col = 0; col < cols; col++\<close> around
  \<^verbatim>\<open>for row = 0; row < rows; row++\<close>, collecting what the body \<open>f col row\<close> submits.
\<close>

function row_loop :: "(uint \<Rightarrow> uint \<Rightarrow> 'a) \<Rightarrow> uint \<Rightarrow> uint \<Rightarrow> uint \<Rightarrow> 'a list" where
  "row_loop f rows col row =
     (if row < rows then f col row # row_loop f rows col (row + 1) else [])"
  by pat_completeness auto
termination
proof (relation "measure (\<lambda>(f, rows, col, row). unat rows - unat row)")
  fix f :: "uint \<Rightarrow> uint \<Rightarrow> 'a" and rows col row :: uint
  assume lt: "row < rows"
  then have less: "unat row < unat rows" by (simp add: word_less_nat_alt)
  moreover have "unat rows < 2 ^ 64" using unsigned_less [of rows] by simp
  ultimately have "unat (row + 1) = Suc (unat row)" by (simp add: unat_word_ariths)
  with less show "((f, rows, col, row + 1), (f, rows, col, row))
      \<in> measure (\<lambda>(f, rows, col, row). unat rows - unat row)"
    by simp
qed simp

declare row_loop.simps [simp del]

function col_loop :: "(uint \<Rightarrow> uint \<Rightarrow> 'a) \<Rightarrow> uint \<Rightarrow> uint \<Rightarrow> uint \<Rightarrow> 'a list" where
  "col_loop f cols rows col =
     (if col < cols then row_loop f rows col 0 @ col_loop f cols rows (col + 1) else [])"
  by pat_completeness auto
termination
proof (relation "measure (\<lambda>(f, cols, rows, col). unat cols - unat col)")
  fix f :: "uint \<Rightarrow> uint \<Rightarrow> 'a" and cols rows col :: uint
  assume lt: "col < cols"
  then have less: "unat col < unat cols" by (simp add: word_less_nat_alt)
  moreover have "unat cols < 2 ^ 64" using unsigned_less [of cols] by simp
  ultimately have "unat (col + 1) = Suc (unat col)" by (simp add: unat_word_ariths)
  with less show "((f, cols, rows, col + 1), (f, cols, rows, col))
      \<in> measure (\<lambda>(f, cols, rows, col). unat cols - unat col)"
    by simp
qed simp

declare col_loop.simps [simp del]

text \<open>
  \<^verbatim>\<open>sync.WaitGroup\<close> keeps its counter in 32 bits. \<^verbatim>\<open>Add(delta)\<close> adds the low 32 bits of
  \<^verbatim>\<open>delta\<close> to them, reads the result as an \<^verbatim>\<open>int32\<close> and panics ("sync: negative WaitGroup
  counter") when it is negative; no goroutine waits while the walker adds. \<^verbatim>\<open>Done()\<close> is
  \<^verbatim>\<open>Add(-1)\<close>, and \<^verbatim>\<open>Wait()\<close> returns once the counter is zero. A panic in any goroutine
  ends the program.
\<close>

datatype crash = NegativeCounter | WaitForever

definition int32 :: "int \<Rightarrow> int" where
  "int32 x = signed_take_bit 31 x"

definition wg_Add :: "int \<Rightarrow> int \<Rightarrow> crash + int" where
  "wg_Add v delta = (let v' = int32 (v + delta) in if v' < 0 then Inl NegativeCounter else Inr v')"

text \<open>\<open>k\<close> tile tasks return, each running its deferred \<^verbatim>\<open>wg.Done()\<close>.\<close>

fun wg_Done_times :: "nat \<Rightarrow> int \<Rightarrow> crash + int" where
  "wg_Done_times 0 v = Inr v"
| "wg_Done_times (Suc k) v =
     (case wg_Add v (- 1) of Inl c \<Rightarrow> Inl c | Inr v' \<Rightarrow> wg_Done_times k v')"

text \<open>
  The walker's state: the \<^verbatim>\<open>Option\<close> behind the pointer \<^verbatim>\<open>opt\<close>, the working image
  \<^verbatim>\<open>tm\<close>, the counter of \<^verbatim>\<open>wg\<close>, the tile tasks started so far, and how many of them have
  returned.
\<close>

record 'img walker =
  w_opt :: Option
  w_tm :: 'img
  w_wg :: int
  w_tasks :: "'img tile_task list"
  w_done :: nat

definition submit :: "'img extern \<Rightarrow> Option \<Rightarrow> 'img \<Rightarrow> uint \<Rightarrow> uint \<Rightarrow> uint \<Rightarrow> uint \<Rightarrow> uint \<Rightarrow> 'img tile_task" where
  "submit ext opt tm level cols rows col row =
     \<lparr>t_dirPath = DirPath opt, t_saver = Saver opt, t_level = level, t_col = col, t_row = row,
      t_format = Format opt, t_m = Crop ext tm (ComputeTileRect opt col row cols rows)\<rparr>"

text \<open>\<^verbatim>\<open>uint(math.Ceil(float64(n) / 2))\<close>, the next level's width or height.\<close>

definition half :: "(f64 \<Rightarrow> uint) \<Rightarrow> uint \<Rightarrow> uint" where
  "half cv n = to_uint cv (math_Ceil (f64_div (float64 n) 2))"

text \<open>
  The body of the level loop, up to the test \<^verbatim>\<open>level == 0\<close>. The tile tasks that return
  meanwhile are counted when the walker reaches \<^verbatim>\<open>wg.Add(int(cols * rows))\<close>; a panic there,
  or in a task's \<^verbatim>\<open>wg.Done()\<close>, ends the run before the tasks of this level are started.
\<close>

definition level_body :: "'img extern \<Rightarrow> 'img walker \<Rightarrow> uint \<Rightarrow> crash + 'img walker" where
  "level_body ext st level =
     (let opt = w_opt st;
          (cols, rows) = GetLevelGrids (uint_conv ext) level (Width opt) (Height opt) (TileSize opt);
          k = min (sched ext level) (length (w_tasks st) - w_done st)
      in case wg_Done_times k (w_wg st) of
           Inl c \<Rightarrow> Inl c
         | Inr v \<Rightarrow>
             (case wg_Add v (sint (cols * rows)) of
                Inl c \<Rightarrow> Inl c
              | Inr wg \<Rightarrow>
                  (let tasks = w_tasks st @ col_loop (submit ext opt (w_tm st) level cols rows) cols rows 0;
                       opt = opt\<lparr>Width := half (uint_conv ext) (Width opt)\<rparr>;
                       opt = opt\<lparr>Height := half (uint_conv ext) (Height opt)\<rparr>;
                       tm = Thumbnail ext (w_tm st) (sint (Width opt)) (sint (Height opt))
                   in Inr \<lparr>w_opt = opt, w_tm = tm, w_wg = wg, w_tasks = tasks,
                            w_done = w_done st + k\<rparr>)))"

text \<open>
  \<^verbatim>\<open>for ; level >= 0; level-- { ...; if level == 0 { break } }\<close>: the condition always
  holds for a \<^verbatim>\<open>uint\<close>; the loop is left by the \<^verbatim>\<open>break\<close>, before \<^verbatim>\<open>level--\<close> can wrap.
\<close>

function walk :: "'img extern \<Rightarrow> 'img walker \<Rightarrow> uint \<Rightarrow> crash + 'img walker" where
  "walk ext st level =
     (case level_body ext st level of
        Inl c \<Rightarrow> Inl c
      | Inr st' \<Rightarrow> if level = 0 then Inr st' else walk ext st' (level - 1))"
  by pat_completeness auto
termination
proof (relation "measure (\<lambda>(ext, st, level). unat level)")
  fix ext :: "'img extern" and st st' :: "'img walker" and level :: uint
  assume "level \<noteq> 0"
  then have "unat (level - 1) < unat level"
    by (simp add: unat_minus_one unat_gt_0)
  then show "((ext, st', level - 1), (ext, st, level)) \<in> measure (\<lambda>(ext, st, level). unat level)"
    by simp
qed simp

declare walk.simps [simp del]

text \<open>
  \<^verbatim>\<open>Generate\<close>. After the loop the tile tasks still running return, each with its
  \<^verbatim>\<open>wg.Done()\<close>; \<^verbatim>\<open>wg.Wait()\<close> returns once the counter is zero, and \<^verbatim>\<open>Generate\<close> returns the
  literal \<^verbatim>\<open>nil\<close>. The result holds what is left behind \<^verbatim>\<open>opt\<close>, the tile tasks started and
  what each of them did. A task's outcome depends on its own arguments only, and every
  \<^verbatim>\<open>SaveFile\<close> call is taken to return. Where a late \<^verbatim>\<open>wg.Done()\<close> panics the run is a crash,
  whether or not \<^verbatim>\<open>wg.Wait()\<close> had returned before.
\<close>

record 'img generated =
  g_opt :: Option
  g_tasks :: "'img tile_task list"
  g_done :: "save_result list"
  g_err :: "error option"

definition start :: "'img \<Rightarrow> Option \<Rightarrow> 'img walker" where
  "start m opt = \<lparr>w_opt = opt, w_tm = m, w_wg = 0, w_tasks = [], w_done = 0\<rparr>"

definition Generate :: "'img extern \<Rightarrow> 'img \<Rightarrow> Option \<Rightarrow> crash + 'img generated" where
  "Generate ext m opt =
     (let level = GetMaxLevel (uint_conv ext) (Width opt) (Height opt)
      in case walk ext (start m opt) level of
           Inl c \<Rightarrow> Inl c
         | Inr st \<Rightarrow>
             (case wg_Done_times (length (w_tasks st) - w_done st) (w_wg st) of
                Inl c \<Rightarrow> Inl c
              | Inr v \<Rightarrow>
                  if v = 0
                  then Inr \<lparr>g_opt = w_opt st, g_tasks = w_tasks st,
                            g_done = map (run_task ext) (w_tasks st), g_err = None\<rparr>
                  else Inl WaitForever))"

section \<open>Notions of the specification\<close>

text \<open>The level indices from \<open>level\<close> down to 0, and the indices \<open>0, ..., n - 1\<close> of a grid axis.\<close>

definition levels_down :: "uint \<Rightarrow> uint list" where
  "levels_down level = map word_of_nat (rev [0 ..< Suc (unat level)])"

definition cells :: "uint \<Rightarrow> uint list" where
  "cells n = map word_of_nat [0 ..< unat n]"

text \<open>
  The pyramid as section 4.3 of the specification describes it. At a level with the
  dimensions in \<open>opt\<close> and the working image \<open>tm\<close>, one tile task per cell of the grid, column
  by column, carrying the level, the column, the row and the crop of the working image;
  then the dimensions are halved and the working image is resized to them.
\<close>

definition level_tiles :: "'img extern \<Rightarrow> uint \<Rightarrow> Option \<Rightarrow> 'img \<Rightarrow> 'img tile_task list" where
  "level_tiles ext level opt tm =
     (let (cols, rows) = GetLevelGrids (uint_conv ext) level (Width opt) (Height opt) (TileSize opt)
      in concat (map (\<lambda>c. map (\<lambda>r.
           \<lparr>t_dirPath = DirPath opt, t_saver = Saver opt, t_level = level, t_col = c, t_row = r,
            t_format = Format opt, t_m = Crop ext tm (ComputeTileRect opt c r cols rows)\<rparr>)
           (cells rows)) (cells cols)))"

definition level_count :: "(f64 \<Rightarrow> uint) \<Rightarrow> uint \<Rightarrow> Option \<Rightarrow> nat" where
  "level_count cv level opt =
     (let (cols, rows) = GetLevelGrids cv level (Width opt) (Height opt) (TileSize opt)
      in unat cols * unat rows)"

definition next_opt :: "(f64 \<Rightarrow> uint) \<Rightarrow> Option \<Rightarrow> Option" where
  "next_opt cv opt = opt\<lparr>Width := half cv (Width opt), Height := half cv (Height opt)\<rparr>"

definition next_tm :: "'img extern \<Rightarrow> Option \<Rightarrow> 'img \<Rightarrow> 'img" where
  "next_tm ext opt tm =
     Thumbnail ext tm (sint (half (uint_conv ext) (Width opt))) (sint (half (uint_conv ext) (Height opt)))"

primrec pyramid_tiles :: "'img extern \<Rightarrow> Option \<Rightarrow> 'img \<Rightarrow> uint list \<Rightarrow> 'img tile_task list" where
  "pyramid_tiles ext opt tm [] = []"
| "pyramid_tiles ext opt tm (l # ls) =
     level_tiles ext l opt tm @ pyramid_tiles ext (next_opt (uint_conv ext) opt) (next_tm ext opt tm) ls"

primrec pyramid_count :: "(f64 \<Rightarrow> uint) \<Rightarrow> Option \<Rightarrow> uint list \<Rightarrow> nat" where
  "pyramid_count cv opt [] = 0"
| "pyramid_count cv opt (l # ls) = level_count cv l opt + pyramid_count cv (next_opt cv opt) ls"

text \<open>The working image after \<open>n\<close> levels.\<close>

primrec level_image :: "'img extern \<Rightarrow> Option \<Rightarrow> 'img \<Rightarrow> nat \<Rightarrow> 'img" where
  "level_image ext opt tm 0 = tm"
| "level_image ext opt tm (Suc n) = level_image ext (next_opt (uint_conv ext) opt) (next_tm ext opt tm) n"

text \<open>The tiles of the whole pyramid of an \<^verbatim>\<open>Option\<close>, and their number.\<close>

definition all_tiles :: "'img extern \<Rightarrow> 'img \<Rightarrow> Option \<Rightarrow> 'img tile_task list" where
  "all_tiles ext m opt =
     pyramid_tiles ext opt m (levels_down (GetMaxLevel (uint_conv ext) (Width opt) (Height opt)))"

definition tile_count :: "(f64 \<Rightarrow> uint) \<Rightarrow> Option \<Rightarrow> nat" where
  "tile_count cv opt = pyramid_count cv opt (levels_down (GetMaxLevel cv (Width opt) (Height opt)))"

text \<open>The per-level downsample in the specification's words: \<open>(ceil(w/2), ceil(h/2))\<close>.\<close>

definition downsample_dims :: "nat \<times> nat \<Rightarrow> nat \<times> nat" where
  "downsample_dims d = ((fst d + 1) div 2, (snd d + 1) div 2)"

text \<open>
  The core region of a tile in the specification's words: the tile's rectangle without the
  overlap added on the edges it shares with a neighbouring tile (none on the left of the
  first column and on the right of the last one; rows alike).
\<close>

definition core_region :: "Option \<Rightarrow> uint \<Rightarrow> uint \<Rightarrow> uint \<Rightarrow> uint \<Rightarrow> Rectangle" where
  "core_region opt col row maxCol maxRow =
     (let r = ComputeTileRect opt col row maxCol maxRow;
          ov = int (unat (Overlap opt))
      in \<lparr>Min_X = Min_X r + (if col = 0 then 0 else ov),
          Min_Y = Min_Y r + (if row = 0 then 0 else ov),
          Max_X = Max_X r - (if col = maxCol - 1 then 0 else ov),
          Max_Y = Max_Y r - (if row = maxRow - 1 then 0 else ov)\<rparr>)"

definition area :: "Rectangle \<Rightarrow> int" where
  "area r = (Max_X r - Min_X r) * (Max_Y r - Min_Y r)"

definition core_area_sum :: "(f64 \<Rightarrow> uint) \<Rightarrow> uint \<Rightarrow> Option \<Rightarrow> int" where
  "core_area_sum cv level opt =
     (let (cols, rows) = GetLevelGrids cv level (Width opt) (Height opt) (TileSize opt)
      in sum_list (concat (map (\<lambda>c. map (\<lambda>r. area (core_region opt c r cols rows)) (cells rows))
                               (cells cols))))"

section \<open>Concrete inputs\<close>

definition ext0 :: "unit extern" where
  "ext0 = \<lparr>uint_conv = (\<lambda>f. 0), sched = (\<lambda>l. 0), Crop = (\<lambda>m r. m), Thumbnail = (\<lambda>m w h. m),
            jpeg_Encode = (\<lambda>m. Inr []), png_Encode = (\<lambda>m. Inr [])\<rparr>"

definition opt_fail :: Option where
  "opt_fail = \<lparr>DirPath = ''out'', Saver = (\<lambda>p b. Some ''disk full''), Format = PNG, Overlap = 0,
                TileSize = 1, Width = 1, Height = 1\<rparr>"

definition opt_gif :: Option where
  "opt_gif = \<lparr>DirPath = ''out'', Saver = (\<lambda>p b. None), Format = ''gif'', Overlap = 0,
               TileSize = 1, Width = 1, Height = 1\<rparr>"

definition opt_2x1 :: Option where
  "opt_2x1 = \<lparr>DirPath = ''out'', Saver = (\<lambda>p b. None), Format = PNG, Overlap = 0,
               TileSize = 1, Width = 2, Height = 1\<rparr>"

definition opt_300 :: Option where
  "opt_300 = \<lparr>DirPath = ''out'', Saver = (\<lambda>p b. None), Format = JPEG, Overlap = 300,
               TileSize = 256, Width = 1000, Height = 1000\<rparr>"

definition opt_200_0 :: Option where
  "opt_200_0 = \<lparr>DirPath = ''out'', Saver = (\<lambda>p b. None), Format = JPEG, Overlap = 0,
                 TileSize = 256, Width = 200, Height = 200\<rparr>"

definition cv0 :: "f64 \<Rightarrow> uint" where
  "cv0 f = 0"

definition opt_200 :: Option where
  "opt_200 = \<lparr>DirPath = ''out'', Saver = (\<lambda>p b. None), Format = JPEG, Overlap = 1,
               TileSize = 256, Width = 200, Height = 200\<rparr>"

definition opt_big :: Option where
  "opt_big = \<lparr>DirPath = ''out'', Saver = (\<lambda>p b. None), Format = PNG, Overlap = 0,
               TileSize = 1, Width = 2147483648, Height = 1\<rparr>"

text \<open>
  A library whose images are their dimensions only: \<^verbatim>\<open>Thumbnail\<close> gives the dimensions asked
  for, \<^verbatim>\<open>Crop\<close> passes the image on. With it a tile task shows the dimensions of the working
  image it was cut from.
\<close>

definition ext_dims :: "(int \<times> int) extern" where
  "ext_dims = \<lparr>uint_conv = (\<lambda>f. 0), sched = (\<lambda>l. 0), Crop = (\<lambda>m r. m), Thumbnail = (\<lambda>m w h. (w, h)),
                jpeg_Encode = (\<lambda>m. Inr []), png_Encode = (\<lambda>m. Inr [])\<rparr>"

definition opt_wide :: Option where
  "opt_wide = \<lparr>DirPath = ''out'', Saver = (\<lambda>p b. None), Format = PNG, Overlap = 0,
                TileSize = 562949953421313, Width = 562949953421313, Height = 1\<rparr>"

section \<open>Rounding lemmas\<close>

lemma rne_of_int: "rne (of_int k) = k"
  by (simp add: rne_def)

lemma rne_err: "\<bar>of_int (rne y) - y\<bar> \<le> 1 / 2"
  unfolding rne_def Let_def by (auto; linarith)

lemma floor_log2_bounds:
  assumes "0 < x"
  shows "2 powr (of_int \<lfloor>log 2 x\<rfloor>) \<le> x" "x < 2 powr (of_int \<lfloor>log 2 x\<rfloor> + 1)"
  using floor_log_eq_powr_iff [of x 2 "\<lfloor>log 2 x\<rfloor>"] assms by auto

lemma floor_log2_eqI:
  assumes "2 ^ n \<le> x" "x < 2 ^ Suc n"
  shows "\<lfloor>log 2 x\<rfloor> = int n"
proof -
  have "(0::real) < 2 ^ n" by simp
  with assms(1) have x: "0 < x" by linarith
  have "2 powr (of_int (int n)) \<le> x \<and> x < 2 powr (of_int (int n) + 1)"
    using assms by (simp add: powr_realpow powr_add)
  then show ?thesis using floor_log_eq_powr_iff [of x 2 "int n"] x by simp
qed

lemma round53_ceiling:
  fixes x :: real and n :: int
  assumes x: "0 < x" and e: "\<lfloor>log 2 x\<rfloor> \<le> 52"
    and lo: "of_int (n - 1) * 2 ^ nat (52 - \<lfloor>log 2 x\<rfloor>) + 1 / 2 < x * 2 ^ nat (52 - \<lfloor>log 2 x\<rfloor>)"
    and hi: "x \<le> of_int n"
  shows "\<lceil>round53 x\<rceil> = n"
proof -
  define K :: real where "K = 2 ^ nat (52 - \<lfloor>log 2 x\<rfloor>)"
  define M where "M = rne (x * K)"
  have K: "0 < K" by (simp add: K_def)
  have r: "round53 x = of_int M / K"
    using x e by (simp add: round53_def K_def M_def Let_def)
  have err: "\<bar>of_int M - x * K\<bar> \<le> 1 / 2" unfolding M_def by (rule rne_err)
  have Kint: "K = of_int (2 ^ nat (52 - \<lfloor>log 2 x\<rfloor>))" by (simp add: K_def)
  have "x * K \<le> of_int n * K" using hi K by simp
  with err have "of_int M \<le> of_int n * K + 1 / 2" by linarith
  then have "of_int M < of_int (n * 2 ^ nat (52 - \<lfloor>log 2 x\<rfloor>)) + (1::real)"
    by (simp add: Kint)
  then have "of_int M < (of_int (n * 2 ^ nat (52 - \<lfloor>log 2 x\<rfloor>) + 1) :: real)" by simp
  then have "M < n * 2 ^ nat (52 - \<lfloor>log 2 x\<rfloor>) + 1" by (simp only: of_int_less_iff)
  then have "M \<le> n * 2 ^ nat (52 - \<lfloor>log 2 x\<rfloor>)" by simp
  then have "(of_int M :: real) \<le> of_int (n * 2 ^ nat (52 - \<lfloor>log 2 x\<rfloor>))" by (simp only: of_int_le_iff)
  then have up: "of_int M \<le> of_int n * K" by (simp add: Kint)
  have "of_int (n - 1) * K < of_int M" using lo err unfolding K_def [symmetric] by linarith
  then have "of_int (n - 1) < of_int M / K" "of_int M / K \<le> of_int n"
    using up K by (simp_all add: field_simps)
  then show ?thesis unfolding r by (simp add: ceiling_eq_iff)
qed

lemma round53_nat_exact:
  assumes "n \<le> 2 ^ 53"
  shows "round53 (real n) = real n"
proof (cases "n = 0")
  case True
  then show ?thesis by (simp add: round53_def)
next
  case False
  then have pos: "0 < real n" by simp
  show ?thesis
  proof (cases "n = 2 ^ 53")
    case True
    have "\<lfloor>log 2 (real n)\<rfloor> = int 53"
      by (rule floor_log2_eqI) (simp_all add: True)
    moreover have "rne (2 ^ 53 / 2) = 2 ^ 52"
      using rne_of_int [of "2 ^ 52"] by simp
    ultimately show ?thesis
      by (simp add: round53_def True)
  next
    case neq: False
    with assms have lt: "real n < 2 ^ 53"
      by (metis le_neq_implies_less of_nat_less_numeral_power_cancel_iff)
    have "log 2 (real n) < 53"
      using lt pos by (simp add: log_less_iff powr_realpow)
    then have e: "\<lfloor>log 2 (real n)\<rfloor> \<le> 52" by linarith
    define k where "k = nat (52 - \<lfloor>log 2 (real n)\<rfloor>)"
    have "real n * 2 ^ k = of_int (int n * 2 ^ k)" by simp
    then have "rne (real n * 2 ^ k) = int n * 2 ^ k"
      by (simp only: rne_of_int)
    then show ?thesis
      using e False by (simp add: round53_def k_def [symmetric])
  qed
qed

lemma round53_quotient_ceiling:
  fixes a b :: nat
  assumes a: "0 < a" "a \<le> 2 ^ 53" and b: "0 < b" "b \<le> 2 ^ 53"
  shows "\<lceil>round53 (real a / real b)\<rceil> = \<lceil>real a / real b\<rceil>"
proof (cases "b = 1")
  case True
  then show ?thesis using round53_nat_exact [OF a(2)] by simp
next
  case False
  with b have b2: "2 \<le> real b" by simp
  define x where "x = real a / real b"
  define n where "n = \<lceil>x\<rceil>"
  define e where "e = \<lfloor>log 2 x\<rfloor>"
  have x: "0 < x" using a b by (simp add: x_def)
  have "x * real b = real a" using b by (simp add: x_def)
  have "x \<le> 2 ^ 53 / 2"
    unfolding x_def using a(2) b2 b(1)
    by (intro frac_le) simp_all
  then have "x < 2 ^ 53" by simp
  then have "log 2 x < 53" using x by (simp add: log_less_iff powr_realpow)
  then have e: "e \<le> 52" unfolding e_def by linarith
  define K :: real where "K = 2 ^ nat (52 - e)"
  have K1: "1 \<le> K" by (simp add: K_def)
  have pw: "2 powr (of_int e) \<le> x" unfolding e_def using floor_log2_bounds(1) [OF x] .
  have hi: "x \<le> of_int n" by (simp add: n_def)
  have nx: "of_int (n - 1) < x" unfolding n_def by linarith
  have lo: "of_int (n - 1) * K + 1 / 2 < x * K"
  proof (cases "n - 1 \<le> 0")
    case True
    have "K = 2 powr (of_int (52 - e))"
      using e unfolding K_def by (subst powr_real_of_int) simp_all
    then have "2 powr (of_int e) * K = 2 powr (of_int e + of_int (52 - e))"
      by (simp only: powr_add)
    also have "of_int e + of_int (52 - e) = (52::real)" by simp
    finally have "2 powr (of_int e) * K = 2 ^ 52" by simp
    moreover have "2 powr (of_int e) * K \<le> x * K" using pw K1 by simp
    ultimately have "2 ^ 52 \<le> x * K" by simp
    moreover have "of_int (n - 1) * K \<le> 0"
      using True K1 by (simp add: mult_le_0_iff)
    ultimately show ?thesis by simp
  next
    case False
    then have n1: "1 \<le> n - 1" by simp
    show ?thesis
    proof (cases "x = of_int n")
      case True
      then have "x * K - of_int (n - 1) * K = K" by (simp add: algebra_simps)
      with K1 show ?thesis by linarith
    next
      case xn: False
      have "real_of_int 1 \<le> real_of_int (n - 1)"
        using n1 by (simp only: of_int_le_iff)
      then have "1 \<le> x" using nx by simp
      then have "0 \<le> log 2 x" by simp
      then have e0: "0 \<le> e" unfolding e_def by simp
      have pe: "(2::real) powr (of_int e) = 2 ^ nat e"
        using e0 by (subst powr_real_of_int) simp_all
      have "(2::real) ^ nat e \<le> x" using pw by (simp only: pe)
      then have "of_int (2 ^ nat e) \<le> x" by simp
      then have "2 ^ nat e \<le> \<lfloor>x\<rfloor>" by (simp only: le_floor_iff)
      moreover have "\<lfloor>x\<rfloor> = n - 1"
        using xn hi nx by (simp add: floor_eq_iff)
      ultimately have en: "2 ^ nat e \<le> n - 1" by simp
      have "real_of_int (n - 1) * real b < x * real b"
        using nx b(1) by simp
      then have "real_of_int ((n - 1) * int b) < real_of_int (int a)"
        using \<open>x * real b = real a\<close> by simp
      then have "(n - 1) * int b < int a"
        by (simp only: of_int_less_iff)
      then have d: "(n - 1) * int b + 1 \<le> int a" by simp
      have "x - of_int (n - 1) = (real a - of_int (n - 1) * real b) / real b"
        using b(1) by (simp add: x_def field_simps)
      moreover have "1 \<le> real a - of_int (n - 1) * real b"
      proof -
        have "real_of_int ((n - 1) * int b + 1) \<le> real_of_int (int a)"
          using d by (simp only: of_int_le_iff)
        then show ?thesis by simp
      qed
      ultimately have gap: "1 / real b \<le> x - of_int (n - 1)"
        using b(1) by (simp add: divide_le_cancel)
      have "2 ^ nat e * int b \<le> (n - 1) * int b"
        using en by (simp add: mult_right_mono)
      with d have "2 ^ nat e * int b < int a" by linarith
      moreover have "int a \<le> 2 ^ 53"
      proof -
        have "int a \<le> int (2 ^ 53)" using a(2) by (simp only: of_nat_le_iff)
        then show ?thesis by simp
      qed
      ultimately have "2 ^ nat e * int b < 2 ^ 53" by linarith
      then have "real_of_int (2 ^ nat e * int b) < real_of_int (2 ^ 53)"
        by (simp only: of_int_less_iff)
      then have bb: "2 ^ nat e * real b < 2 ^ 53" by simp
      have "(2::real) ^ nat e * K = 2 ^ (nat e + nat (52 - e))"
        by (simp add: K_def power_add)
      also have "nat e + nat (52 - e) = 52" using e e0 by simp
      finally have eK: "(2::real) ^ nat e * K = 2 ^ 52" .
      have "2 ^ nat e * real b < 2 * (2 ^ nat e * K)" using bb eK by simp
      then have "real b < 2 * K" by simp
      then have "1 / 2 < K / real b" using b(1) by (simp add: field_simps)
      also have "K / real b \<le> (x - of_int (n - 1)) * K"
        using mult_right_mono [OF gap, of K] K1 by simp
      finally show ?thesis by (simp add: algebra_simps)
    qed
  qed
  have "\<lceil>round53 x\<rceil> = n"
    by (rule round53_ceiling [OF x]) (use e lo hi in \<open>simp_all add: e_def K_def\<close>)
  then show ?thesis by (simp add: n_def x_def)
qed

lemma log2_gap:
  fixes m k :: nat
  assumes "2 ^ k < m"
  shows "1 / 2 ^ k \<le> log 2 (real m) - real k"
proof -
  define N :: nat where "N = 2 ^ k"
  have N: "0 < real N" by (simp add: N_def)
  have "0 \<le> 1 / real N" by simp
  then have "- 1 \<le> 1 / real N" by linarith
  then have "1 + real N * (1 / real N) \<le> (1 + 1 / real N) ^ N"
    by (rule Bernoulli_inequality)
  then have two: "2 \<le> (1 + 1 / real N) ^ N" using N by simp
  have pos: "0 < 1 + 1 / real N" using N by (simp add: add_pos_pos)
  have "log 2 2 \<le> log 2 ((1 + 1 / real N) ^ N)"
    using two by (subst log_le_cancel_iff) simp_all
  then have "1 \<le> real N * log 2 (1 + 1 / real N)"
    using pos by (simp add: log_nat_power)
  then have a: "1 / real N \<le> log 2 (1 + 1 / real N)"
    using N by (simp add: field_simps)
  have "N + 1 \<le> m" using assms by (simp add: N_def)
  then have "real N + 1 \<le> real m" by linarith
  then have "(real N + 1) / real N \<le> real m / real N"
    using N by (intro divide_right_mono) simp_all
  then have "1 + 1 / real N \<le> real m / real N"
    using N by (simp add: add_divide_distrib)
  then have "log 2 (1 + 1 / real N) \<le> log 2 (real m / real N)"
    using pos by (subst log_le_cancel_iff) simp_all
  also have "\<dots> = log 2 (real m) - log 2 (real N)"
    using N assms by (subst log_divide) simp_all
  also have "log 2 (real N) = real k" by (simp add: N_def)
  finally show ?thesis using a by (simp add: N_def)
qed

lemma round53_log2_ceiling:
  fixes m :: nat
  assumes m: "0 < m" "m \<le> 2 ^ 48"
  shows "\<lceil>round53 (log 2 (real m))\<rceil> = \<lceil>log 2 (real m)\<rceil>"
proof -
  define L where "L = log 2 (real m)"
  define n where "n = \<lceil>L\<rceil>"
  have L0: "0 \<le> L" using m(1) by (simp add: L_def)
  have L48: "L \<le> 48" unfolding L_def using log2_of_power_le [OF m(2) m(1)] by simp
  have n0: "0 \<le> n" using L0 unfolding n_def by linarith
  have hi: "L \<le> of_int n" by (simp add: n_def)
  have nx: "of_int (n - 1) < L" unfolding n_def by linarith
  show ?thesis
  proof (cases "L = of_int n")
    case True
    have "n \<le> 48" using L48 True by linarith
    then have "nat n \<le> 48" by simp
    then have "nat n \<le> 2 ^ 53" by simp
    then have "round53 (real (nat n)) = real (nat n)" by (rule round53_nat_exact)
    moreover have "real (nat n) = L" using True n0 by simp
    ultimately show ?thesis unfolding L_def [symmetric] by simp
  next
    case False
    with hi have Ln: "L < of_int n" by simp
    have "0 < L" using L0 False n0 nx
      by (metis Ln ceiling_le_zero le_less n_def not_le of_int_0_less_iff order.trans)
    have "n \<le> 48" using L48 unfolding n_def by (simp add: ceiling_le_iff)
    have n1: "1 \<le> n" using \<open>0 < L\<close> unfolding n_def by (simp add: less_ceiling_iff[symmetric] int_one_le_iff_zero_less)
    define k where "k = nat (n - 1)"
    have k: "int k = n - 1" "k \<le> 47" using n1 \<open>n \<le> 48\<close> by (simp_all add: k_def)
    have "real k < log 2 (real m)" using nx k(1) unfolding L_def
      by (metis of_int_of_nat_eq)
    then have "2 powr (real k) < real m"
      using m(1) by (simp add: less_log_iff)
    then have "2 ^ k < real m" by (simp add: powr_realpow)
    then have "2 ^ k < m"
      by (metis of_nat_less_iff of_nat_numeral of_nat_power)
    then have gap: "1 / 2 ^ k \<le> L - real k" unfolding L_def by (rule log2_gap)
    have one: "1 \<le> L" using nx n1 False hi
    proof -
      have "real_of_int 0 \<le> real_of_int (n - 1)" using n1 by simp
      then have "0 < L" using nx by simp
      have "(0::real) \<le> 1 / 2 ^ k" by simp
      with gap have "real k \<le> L" by linarith
      show ?thesis
      proof (cases "k = 0")
        case True
        then have "1 \<le> L - real k" using gap by simp
        then show ?thesis using True by simp
      next
        case False
        then have "1 \<le> real k" by simp
        with \<open>real k \<le> L\<close> show ?thesis by linarith
      qed
    qed
    have "L < 2 ^ 6" using L48 by simp
    then have "log 2 L < 6"
      using \<open>0 < L\<close> by (simp add: log_less_iff powr_realpow)
    then have e5: "\<lfloor>log 2 L\<rfloor> \<le> 5" by linarith
    define K :: real where "K = 2 ^ nat (52 - \<lfloor>log 2 L\<rfloor>)"
    have "47 \<le> nat (52 - \<lfloor>log 2 L\<rfloor>)" using e5 by linarith
    then have "(2::real) ^ 47 \<le> 2 ^ nat (52 - \<lfloor>log 2 L\<rfloor>)"
      by (rule power_increasing) simp
    then have K47: "2 ^ 47 \<le> K" by (simp add: K_def)
    have "(2::real) ^ k \<le> 2 ^ 47"
      by (rule power_increasing) (use k(2) in simp_all)
    with K47 have "2 ^ k \<le> K" by linarith
    then have "1 \<le> (1 / 2 ^ k) * K" by (simp add: field_simps)
    also have "\<dots> \<le> (L - real k) * K"
      using mult_right_mono [OF gap, of K] K47 by simp
    finally have "1 \<le> (L - real k) * K" .
    moreover have "real k = of_int (n - 1)" using k(1) by (metis of_int_of_nat_eq)
    ultimately have lo: "of_int (n - 1) * K + 1 / 2 < L * K"
      by (simp add: algebra_simps)
    have "\<lceil>round53 L\<rceil> = n"
      by (rule round53_ceiling [OF \<open>0 < L\<close>]) (use e5 lo hi in \<open>simp_all add: K_def\<close>)
    then show ?thesis by (simp add: n_def L_def)
  qed
qed

section \<open>Geometry lemmas\<close>

lemma float64_exact: "unat u \<le> 2 ^ 53 \<Longrightarrow> float64 u = real (unat u)"
  by (simp add: float64_def round53_nat_exact del: of_nat_unat)

lemma to_uint_of_int:
  assumes "0 \<le> c" "c < 2 ^ 64"
  shows "to_uint cv (Num (of_int c)) = word_of_int c"
proof -
  have "real_of_int c < real_of_int (2 ^ 64)" using assms(2) by (simp only: of_int_less_iff)
  then have "real_of_int c < 2 ^ 64" by simp
  moreover have "real_of_int 0 \<le> real_of_int c" using assms(1) by (simp only: of_int_le_iff)
  then have "0 \<le> real_of_int c" by simp
  ultimately show ?thesis
    unfolding to_uint_def trunc_def by simp
qed

lemma to_uint_Ceil:
  assumes "0 \<le> \<lceil>r\<rceil>" "\<lceil>r\<rceil> < 2 ^ 64"
  shows "to_uint cv (math_Ceil (Num r)) = word_of_int \<lceil>r\<rceil>"
  using to_uint_of_int [OF assms] by (simp add: math_Ceil_def)

lemma unat_word_of_ceiling:
  assumes "0 \<le> c" "c < 2 ^ 64"
  shows "unat (word_of_int c :: uint) = nat c"
  using assms by (simp add: unat_eq_nat_uint uint_word_of_int)

lemma ceil_div_uint:
  fixes w t :: uint
  assumes w: "0 < unat w" "unat w \<le> 2 ^ 53" and t: "0 < unat t" "unat t \<le> 2 ^ 53"
  shows "unat (to_uint cv (math_Ceil (f64_div (float64 w) (float64 t))))
           = nat \<lceil>real (unat w) / real (unat t)\<rceil>"
proof -
  define x where "x = real (unat w) / real (unat t)"
  have x: "0 < x" "x \<le> 2 ^ 53"
  proof -
    show "0 < x" using w t by (simp add: x_def del: of_nat_unat)
    have "x \<le> real (unat w) / 1"
      unfolding x_def using t(1) by (intro divide_left_mono) (simp_all del: of_nat_unat)
    also have "\<dots> \<le> 2 ^ 53" using w(2)
      by (metis div_by_1 of_nat_le_iff of_nat_numeral of_nat_power)
    finally show "x \<le> 2 ^ 53" .
  qed
  have c: "\<lceil>round53 x\<rceil> = \<lceil>x\<rceil>"
    unfolding x_def by (rule round53_quotient_ceiling [OF w t])
  have c0: "0 \<le> \<lceil>x\<rceil>" using x(1) by (simp add: ceiling_le_iff[symmetric] less_imp_le)
  have "\<lceil>x\<rceil> \<le> 2 ^ 53" using x(2) by (simp add: ceiling_le_iff)
  then have c1: "\<lceil>x\<rceil> < 2 ^ 64" by simp
  have "f64_div (float64 w) (float64 t) = Num (round53 x)"
    using t w(1) by (simp add: f64_div_def float64_exact [OF w(2)] float64_exact [OF t(2)] x_def del: of_nat_unat)
  then have "to_uint cv (math_Ceil (f64_div (float64 w) (float64 t))) = word_of_int \<lceil>x\<rceil>"
    using to_uint_Ceil [of "round53 x" cv] c c0 c1 by simp
  then show ?thesis using unat_word_of_ceiling [OF c0 c1] by (simp add: x_def del: of_nat_unat)
qed

lemma GetLevelGrids_ceiling:
  assumes "0 < unat width" "unat width \<le> 2 ^ 53" "0 < unat height" "unat height \<le> 2 ^ 53"
    "0 < unat tileSize" "unat tileSize \<le> 2 ^ 53"
  shows "unat (fst (GetLevelGrids cv level width height tileSize))
           = nat \<lceil>real (unat width) / real (unat tileSize)\<rceil> \<and>
         unat (snd (GetLevelGrids cv level width height tileSize))
           = nat \<lceil>real (unat height) / real (unat tileSize)\<rceil>"
  using assms by (simp add: GetLevelGrids_def ceil_div_uint del: of_nat_unat)

lemma GetMaxLevel_ceiling_log:
  assumes "0 < unat width" "unat width \<le> 2 ^ 48" "0 < unat height" "unat height \<le> 2 ^ 48"
  shows "unat (GetMaxLevel cv width height)
           = nat \<lceil>log 2 (real (max (unat width) (unat height)))\<rceil>"
proof -
  define m where "m = max (unat width) (unat height)"
  have m: "0 < m" "m \<le> 2 ^ 48" using assms by (simp_all add: m_def)
  have "unat width \<le> 2 ^ 53" "unat height \<le> 2 ^ 53"
    using assms(2,4) by simp_all
  then have "math_Max (float64 width) (float64 height) = real m"
    by (simp add: math_Max_def float64_exact m_def del: of_nat_unat)
  then have l: "math_Log2 (math_Max (float64 width) (float64 height)) = Num (round53 (log 2 (real m)))"
    using m(1) by (simp add: math_Log2_def)
  have c: "\<lceil>round53 (log 2 (real m))\<rceil> = \<lceil>log 2 (real m)\<rceil>"
    by (rule round53_log2_ceiling [OF m])
  have "0 \<le> log 2 (real m)" using m(1) by simp
  then have c0: "0 \<le> \<lceil>log 2 (real m)\<rceil>" by linarith
  have "log 2 (real m) \<le> 48" using log2_of_power_le [OF m(2) m(1)] by simp
  then have "\<lceil>log 2 (real m)\<rceil> \<le> 48" by (simp add: ceiling_le_iff)
  then have c1: "\<lceil>log 2 (real m)\<rceil> < 2 ^ 64" by simp
  have "GetMaxLevel cv width height = word_of_int \<lceil>log 2 (real m)\<rceil>"
    unfolding GetMaxLevel_def l using to_uint_Ceil [of "round53 (log 2 (real m))" cv] c c0 c1 by simp
  then show ?thesis using unat_word_of_ceiling [OF c0 c1] by (simp add: m_def del: of_nat_unat)
qed

lemma round53_tie: "round53 9007199254740993 = 9007199254740992"
proof -
  have "\<lfloor>log 2 (9007199254740993::real)\<rfloor> = int 53"
    by (rule floor_log2_eqI) simp_all
  moreover have "rne (9007199254740993 / 2) = 4503599627370496"
    by (simp add: rne_def)
  ultimately show ?thesis by (simp add: round53_def)
qed

lemma float64_tie: "float64 9007199254740993 = 9007199254740992"
  by (simp add: float64_def round53_tie)

lemma float64_one: "float64 1 = 1"
  using float64_exact [of 1] by simp

lemma round53_2p53: "round53 9007199254740992 = 9007199254740992"
  using round53_nat_exact [of "2 ^ 53"] by simp

lemma GetLevelGrids_tie:
  "fst (GetLevelGrids cv level 9007199254740993 1 1) = 9007199254740992"
proof -
  have "f64_div (float64 9007199254740993) (float64 1) = Num 9007199254740992"
    by (simp add: f64_div_def float64_tie float64_one round53_2p53)
  moreover have "to_uint cv (math_Ceil (Num 9007199254740992)) = word_of_int 9007199254740992"
    using to_uint_Ceil [of 9007199254740992 cv] by simp
  ultimately show ?thesis by (simp add: GetLevelGrids_def)
qed

lemma GetMaxLevel_tie: "GetMaxLevel cv 9007199254740993 1 = 53"
proof -
  have "math_Max (float64 9007199254740993) (float64 1) = 2 ^ 53"
    by (simp add: math_Max_def float64_tie float64_one)
  moreover have "log 2 ((2::real) ^ 53) = real 53" by (rule log_pow_cancel) simp_all
  moreover have "round53 53 = 53" using round53_nat_exact [of 53] by simp
  ultimately have "math_Log2 (math_Max (float64 9007199254740993) (float64 1)) = Num 53"
    by (simp only: math_Log2_def) simp
  moreover have "to_uint cv (math_Ceil (Num 53)) = word_of_int 53"
    using to_uint_Ceil [of 53 cv] by simp
  ultimately show ?thesis by (simp add: GetMaxLevel_def)
qed

lemma ceiling_log2_tie: "\<lceil>log 2 (9007199254740993::real)\<rceil> = 54"
proof -
  have "\<lceil>log (real 2) (real 9007199254740993)\<rceil> = int 53 + 1"
    by (rule ceiling_log_nat_eq_if) simp_all
  then show ?thesis by simp
qed

lemma nat_ceiling_log2:
  fixes n k :: nat
  assumes "2 ^ n < k" "k \<le> 2 ^ (n + 1)"
  shows "nat \<lceil>log 2 (real k)\<rceil> = n + 1"
proof -
  have "\<lceil>log (real 2) (real k)\<rceil> = int n + 1"
    by (rule ceiling_log_nat_eq_if) (use assms in simp_all)
  then show ?thesis by simp
qed

section \<open>Loop lemmas\<close>

lemma unat_plus_one: "(w :: uint) < v \<Longrightarrow> unat (w + 1) = Suc (unat w)"
proof -
  assume "w < v"
  then have "unat w < unat v" by (simp add: word_less_nat_alt)
  moreover have "unat v < 2 ^ 64" using unsigned_less [of v] by simp
  ultimately show ?thesis by (simp add: unat_word_ariths)
qed

lemma row_loop_map:
  "row \<le> rows \<Longrightarrow> row_loop f rows col row = map (f col) (map word_of_nat [unat row ..< unat rows])"
proof (induction f rows col row rule: row_loop.induct)
  case (1 f rows col row)
  show ?case
  proof (cases "row < rows")
    case True
    then have s: "unat (row + 1) = Suc (unat row)" by (rule unat_plus_one)
    have lt: "unat row < unat rows" using True by (simp add: word_less_nat_alt)
    then have "row + 1 \<le> rows" using s by (simp add: word_le_nat_alt)
    then have "row_loop f rows col (row + 1) = map (f col) (map word_of_nat [Suc (unat row) ..< unat rows])"
      using "1.IH" [OF True] s by simp
    then show ?thesis
      using True lt by (subst row_loop.simps) (simp add: upt_conv_Cons)
  next
    case False
    with "1.prems" have "row = rows" by simp
    then show ?thesis by (subst row_loop.simps) simp
  qed
qed

lemma row_loop_cells: "row_loop f rows col 0 = map (f col) (cells rows)"
  using row_loop_map [of 0 rows f col] by (simp add: cells_def)

lemma col_loop_map:
  "col \<le> cols \<Longrightarrow> col_loop f cols rows col
     = concat (map (\<lambda>c. map (f c) (cells rows)) (map word_of_nat [unat col ..< unat cols]))"
proof (induction f cols rows col rule: col_loop.induct)
  case (1 f cols rows col)
  show ?case
  proof (cases "col < cols")
    case True
    then have s: "unat (col + 1) = Suc (unat col)" by (rule unat_plus_one)
    have lt: "unat col < unat cols" using True by (simp add: word_less_nat_alt)
    then have "col + 1 \<le> cols" using s by (simp add: word_le_nat_alt)
    then have "col_loop f cols rows (col + 1)
        = concat (map (\<lambda>c. map (f c) (cells rows)) (map word_of_nat [Suc (unat col) ..< unat cols]))"
      using "1.IH" [OF True] s by simp
    then show ?thesis
      using True lt by (subst col_loop.simps) (simp add: upt_conv_Cons row_loop_cells)
  next
    case False
    with "1.prems" have "col = cols" by simp
    then show ?thesis by (subst col_loop.simps) simp
  qed
qed

lemma col_loop_cells:
  "col_loop f cols rows 0 = concat (map (\<lambda>c. map (f c) (cells rows)) (cells cols))"
  using col_loop_map [of 0 cols f rows] by (simp add: cells_def)

lemma levels_down_0: "levels_down 0 = [0]"
  by (simp add: levels_down_def)

lemma levels_down_rec: "level \<noteq> 0 \<Longrightarrow> levels_down level = level # levels_down (level - 1)"
proof -
  assume "level \<noteq> 0"
  then have "0 < unat level" by (simp add: unat_gt_0)
  then have "unat (level - 1) = unat level - 1" by (simp add: unat_minus_one \<open>level \<noteq> 0\<close>)
  then have "Suc (unat (level - 1)) = unat level" using \<open>0 < unat level\<close> by simp
  then show ?thesis by (simp add: levels_down_def)
qed

lemma inj_on_word_of_nat: "inj_on (word_of_nat :: nat \<Rightarrow> uint) {..unat (level::uint)}"
proof (rule inj_onI)
  fix a b
  assume a: "a \<in> {..unat level}" and b: "b \<in> {..unat level}"
    and eq: "(word_of_nat a :: uint) = word_of_nat b"
  have "a \<le> unat level" using a by (simp only: atMost_iff)
  then have "unat (word_of_nat a :: uint) = a" by (rule le_unat_uoi)
  moreover have "b \<le> unat level" using b by (simp only: atMost_iff)
  then have "unat (word_of_nat b :: uint) = b" by (rule le_unat_uoi)
  ultimately show "a = b" using eq by metis
qed

lemma distinct_levels_down: "distinct (levels_down level)"
proof -
  have "set (rev [0 ..< Suc (unat level)]) = {..unat level}"
    by (simp only: set_rev set_upt atLeast0LessThan lessThan_Suc_atMost)
  then have "inj_on (word_of_nat :: nat \<Rightarrow> uint) (set (rev [0 ..< Suc (unat level)]))"
    using inj_on_word_of_nat [of level] by (simp only:)
  moreover have "distinct (rev [0 ..< Suc (unat level)])"
    by (simp only: distinct_rev distinct_upt)
  ultimately show ?thesis
    unfolding levels_down_def by (simp only: distinct_map) 
qed

lemma length_levels_down: "length (levels_down level) = Suc (unat level)"
  by (simp add: levels_down_def)

lemma levels_down_snoc:
  "levels_down level = map word_of_nat (rev [1 ..< Suc (unat level)]) @ [0]"
proof -
  have "[0 ..< Suc (unat level)] = 0 # [1 ..< Suc (unat level)]"
    by (simp add: upt_rec del: upt_Suc)
  then show ?thesis by (simp add: levels_down_def del: upt_Suc)
qed

lemma zero_notin_upper_levels:
  "(0 :: uint) \<notin> set (map word_of_nat (rev [1 ..< Suc (unat (level :: uint))]))"
proof
  assume "(0 :: uint) \<in> set (map word_of_nat (rev [1 ..< Suc (unat level)]))"
  then obtain k where k: "1 \<le> k" "k \<le> unat level" "(word_of_nat k :: uint) = 0" by auto
  have "unat level < 2 ^ 64" using unsigned_less [of level] by simp
  with k(2) have "k < 2 ^ LENGTH(64)" by simp
  then have "(word_of_nat k :: uint) \<noteq> 0" using k(1) by (intro of_nat_neq_0) simp_all
  with k(3) show False by simp
qed

lemma cells_1: "cells 1 = [0]"
  by (simp add: cells_def)

section \<open>Halving and the single-tile grid\<close>

lemma float64_two: "float64 2 = 2"
  using float64_exact [of 2] by simp

lemma nat_ceiling_half: "nat \<lceil>real a / 2\<rceil> = (a + 1) div 2"
proof -
  have "\<lceil>real a / 2\<rceil> = (int a + 1) div 2"
  proof (cases "even a")
    case True
    then obtain k where "a = 2 * k" by (auto elim: evenE)
    then show ?thesis by simp
  next
    case False
    then obtain k where k: "a = 2 * k + 1" by (auto elim: oddE)
    then have "real a / 2 = real k + 1 / 2" by simp
    then have "\<lceil>real a / 2\<rceil> = int k + 1" by (simp add: ceiling_eq_iff)
    then show ?thesis using k by simp
  qed
  then show ?thesis by (simp add: nat_div_distrib nat_add_distrib)
qed

lemma half_unat:
  assumes "0 < unat w" "unat w \<le> 2 ^ 53"
  shows "unat (half cv w) = (unat w + 1) div 2"
proof -
  have "unat (to_uint cv (math_Ceil (f64_div (float64 w) (float64 2))))
          = nat \<lceil>real (unat w) / real (unat (2 :: uint))\<rceil>"
    by (rule ceil_div_uint) (use assms in simp_all)
  then show ?thesis
    by (simp add: half_def float64_two nat_ceiling_half del: of_nat_unat)
qed

lemma half_iter:
  "0 < unat w \<Longrightarrow> unat w \<le> 2 ^ n \<Longrightarrow> n \<le> 53 \<Longrightarrow> (half cv ^^ n) w = 1"
proof (induction n arbitrary: w)
  case 0
  then have "unat w = 1" by simp
  then show ?case by (simp add: word_unat_eq_iff)
next
  case (Suc n)
  have "(2::nat) ^ Suc n \<le> 2 ^ 53" using Suc.prems(3) by (intro power_increasing) simp_all
  with Suc.prems(2) have le: "unat w \<le> 2 ^ 53" by linarith
  have u: "unat (half cv w) = (unat w + 1) div 2"
    using Suc.prems(1) le by (rule half_unat)
  have "0 < unat (half cv w)" using u Suc.prems(1) by simp
  moreover have "unat (half cv w) \<le> 2 ^ n" using u Suc.prems(2) by simp
  ultimately have "(half cv ^^ n) (half cv w) = 1"
    using Suc.IH Suc.prems(3) by simp
  then show ?case by (simp add: funpow_swap1)
qed

lemma downsample_iter:
  "0 < a \<Longrightarrow> a \<le> 2 ^ n \<Longrightarrow> 0 < b \<Longrightarrow> b \<le> 2 ^ n \<Longrightarrow> (downsample_dims ^^ n) (a, b) = (1, 1)"
proof (induction n arbitrary: a b)
  case 0
  then show ?case by simp
next
  case (Suc n)
  have "(downsample_dims ^^ n) ((a + 1) div 2, (b + 1) div 2) = (1, 1)"
    using Suc.prems by (intro Suc.IH) simp_all
  moreover have "(downsample_dims ^^ Suc n) (a, b) = (downsample_dims ^^ n) (downsample_dims (a, b))"
    by (simp only: funpow_Suc_right o_apply)
  moreover have "downsample_dims (a, b) = ((a + 1) div 2, (b + 1) div 2)"
    by (simp add: downsample_dims_def)
  ultimately show ?case by simp
qed

lemma le_pow_ceiling_log2:
  fixes m :: nat
  assumes "0 < m"
  shows "m \<le> 2 ^ nat \<lceil>log 2 (real m)\<rceil>"
proof -
  define c where "c = nat \<lceil>log 2 (real m)\<rceil>"
  have "log 2 (real m) \<le> real c" unfolding c_def by linarith
  then have "real m \<le> 2 powr (real c)"
    using assms by (simp add: log_le_iff)
  then have "real m \<le> 2 ^ c" by (simp add: powr_realpow)
  then have "real m \<le> real (2 ^ c)" by simp
  then show ?thesis unfolding c_def [symmetric] by (simp only: of_nat_le_iff)
qed

lemma round53_unit_ceiling:
  assumes "0 < x" "x \<le> 1"
  shows "\<lceil>round53 x\<rceil> = 1"
proof (rule round53_ceiling [OF assms(1)])
  have "log 2 x \<le> 0" using assms by simp
  then have e: "\<lfloor>log 2 x\<rfloor> \<le> 0" by linarith
  then show "\<lfloor>log 2 x\<rfloor> \<le> 52" by simp
  define K :: real where "K = 2 ^ nat (52 - \<lfloor>log 2 x\<rfloor>)"
  have K0: "0 < K" by (simp add: K_def)
  have "K = 2 powr (of_int (52 - \<lfloor>log 2 x\<rfloor>))"
    using e unfolding K_def by (subst powr_real_of_int) simp_all
  then have "2 powr (of_int \<lfloor>log 2 x\<rfloor>) * K = 2 powr (of_int \<lfloor>log 2 x\<rfloor> + of_int (52 - \<lfloor>log 2 x\<rfloor>))"
    by (simp only: powr_add)
  also have "of_int \<lfloor>log 2 x\<rfloor> + of_int (52 - \<lfloor>log 2 x\<rfloor>) = (52::real)" by simp
  finally have "2 powr (of_int \<lfloor>log 2 x\<rfloor>) * K = 2 ^ 52" by simp
  moreover have "2 powr (of_int \<lfloor>log 2 x\<rfloor>) * K \<le> x * K"
    using floor_log2_bounds(1) [OF assms(1)] K0 by simp
  ultimately have "2 ^ 52 \<le> x * K" by simp
  then show "real_of_int (1 - 1) * 2 ^ nat (52 - \<lfloor>log 2 x\<rfloor>) + 1 / 2 < x * 2 ^ nat (52 - \<lfloor>log 2 x\<rfloor>)"
    unfolding K_def by simp
  show "x \<le> real_of_int 1" using assms(2) by simp
qed

lemma round53_ge_1:
  assumes "1 \<le> x"
  shows "1 \<le> round53 x"
proof -
  have x: "0 < x" using assms by simp
  define e where "e = \<lfloor>log 2 x\<rfloor>"
  have "0 \<le> log 2 x" using assms by simp
  then have e0: "0 \<le> e" unfolding e_def by simp
  have pw: "2 powr (of_int e) \<le> x" unfolding e_def using floor_log2_bounds(1) [OF x] .
  have pe: "(2::real) powr (of_int e) = 2 ^ nat e"
    using e0 by (subst powr_real_of_int) simp_all
  show ?thesis
  proof (cases "e \<le> 52")
    case True
    define K :: real where "K = 2 ^ nat (52 - e)"
    define M where "M = rne (x * K)"
    have K1: "1 \<le> K" by (simp add: K_def)
    have r: "round53 x = of_int M / K"
      using x True by (simp add: round53_def K_def M_def e_def Let_def)
    have err: "\<bar>of_int M - x * K\<bar> \<le> 1 / 2" unfolding M_def by (rule rne_err)
    have "K \<le> x * K" using assms K1 by simp
    with err have "K - 1 / 2 \<le> of_int M" by linarith
    moreover have "K = of_int (2 ^ nat (52 - e))" by (simp add: K_def)
    ultimately have "real_of_int (2 ^ nat (52 - e)) - 1 < real_of_int M" by linarith
    then have "real_of_int (2 ^ nat (52 - e) - 1) < real_of_int M" by simp
    then have "2 ^ nat (52 - e) - 1 < M" by (simp only: of_int_less_iff)
    then have "2 ^ nat (52 - e) \<le> M" by simp
    then have "real_of_int (2 ^ nat (52 - e)) \<le> real_of_int M" by (simp only: of_int_le_iff)
    then have "K \<le> of_int M" by (simp add: K_def)
    then show ?thesis unfolding r using K1 by (simp add: field_simps)
  next
    case False
    define U :: real where "U = 2 ^ nat (e - 52)"
    define M where "M = rne (x / U)"
    have U1: "1 \<le> U" by (simp add: U_def)
    have r: "round53 x = of_int M * U"
      using x False by (simp add: round53_def U_def M_def e_def Let_def)
    have err: "\<bar>of_int M - x / U\<bar> \<le> 1 / 2" unfolding M_def by (rule rne_err)
    have "(2::real) ^ nat e = 2 ^ (52 + nat (e - 52))" using False by simp
    also have "\<dots> = 2 ^ 52 * U" by (simp only: power_add U_def)
    finally have "2 ^ 52 * U \<le> x" using pw pe by simp
    then have "2 ^ 52 \<le> x / U" using U1 by (simp add: field_simps)
    moreover have "(1::real) \<le> 2 ^ 52" by simp
    ultimately have "1 \<le> x / U" by linarith
    with err have "0 < real_of_int M" by linarith
    then have "0 < M" by simp
    then have "1 \<le> M" by simp
    then have "real_of_int 1 \<le> real_of_int M" by (simp only: of_int_le_iff)
    then have "1 \<le> real_of_int M" by simp
    then have "1 * 1 \<le> real_of_int M * U" using U1 by (intro mult_mono) simp_all
    then show ?thesis unfolding r by simp
  qed
qed

lemma float64_ge_1: "0 < unat t \<Longrightarrow> 1 \<le> float64 t"
  unfolding float64_def by (rule round53_ge_1) (simp del: of_nat_unat)

lemma GetLevelGrids_unit:
  assumes "0 < unat tileSize"
  shows "GetLevelGrids cv level 1 1 tileSize = (1, 1)"
proof -
  have b: "1 \<le> float64 tileSize" using assms by (rule float64_ge_1)
  then have "0 < 1 / float64 tileSize" "1 / float64 tileSize \<le> 1" by simp_all
  then have "\<lceil>round53 (1 / float64 tileSize)\<rceil> = 1" by (rule round53_unit_ceiling)
  moreover have "f64_div (float64 1) (float64 tileSize) = Num (round53 (1 / float64 tileSize))"
    using b by (simp add: f64_div_def float64_one)
  ultimately have "to_uint cv (math_Ceil (f64_div (float64 1) (float64 tileSize))) = 1"
    using to_uint_Ceil [of "round53 (1 / float64 tileSize)" cv] by simp
  then show ?thesis by (simp add: GetLevelGrids_def)
qed

section \<open>Further lemmas\<close>

lemma SaveTile_unknown_format:
  "format \<noteq> JPEG \<Longrightarrow> format \<noteq> PNG \<Longrightarrow>
     SaveTile ext dirPath saver level col row format m
       = \<lparr>stored = [(tile_path dirPath level col row format, [])],
          returned = saver (tile_path dirPath level col row format) []\<rparr>"
  by (simp add: SaveTile_def Let_def split: option.split)

lemma downsample_power_plus_one:
  "n \<le> k \<Longrightarrow> (downsample_dims ^^ n) (2 ^ k + 1, 1) = (2 ^ (k - n) + 1, 1)"
proof (induction n)
  case 0
  show ?case by simp
next
  case (Suc n)
  then obtain j where j: "k - n = Suc j" by (metis Suc_diff_Suc Suc_le_lessD)
  then have "k - Suc n = j" by simp
  moreover have "(2 ^ Suc j + 1 + 1) div 2 = (2::nat) ^ j + 1" by simp
  ultimately show ?case using Suc j by (simp add: downsample_dims_def)
qed

lemma tile_path_000: "tile_path ''out'' 0 0 0 ''gif'' = ''out/0/0_0.gif''"
  by (simp add: tile_path_def decimal.simps)

lemma sint_mult_sub:
  fixes c t v :: uint
  assumes "- (2 ^ 63) \<le> int (unat c * unat t) - int (unat v)"
    "int (unat c * unat t) - int (unat v) < 2 ^ 63"
  shows "sint (c * t - v) = int (unat c * unat t) - int (unat v)"
proof -
  define z where "z = int (unat c * unat t) - int (unat v)"
  have "c * t - v = word_of_int z"
    by (simp add: z_def)
  then have "sint (c * t - v) = signed_take_bit 63 z"
    by (simp add: signed_of_int)
  also have "\<dots> = z"
    using assms by (simp add: signed_take_bit_int_eq_self z_def)
  finally show ?thesis by (simp add: z_def)
qed

section \<open>The logarithm just above a power of two\<close>

lemma log2_one_plus_less:
  assumes "0 < t"
  shows "log 2 (1 + t) < 2 * t"
proof -
  have "1 + t \<le> exp t" by (rule exp_ge_add_one_self)
  also have "exp t = exp 1 powr t" by (simp add: powr_def)
  also have "\<dots> < 4 powr t"
  proof (rule powr_less_mono2)
    show "0 < t" by fact
    show "0 \<le> exp (1::real)" by simp
    have "exp (1::real) \<le> 3" by (rule exp_le)
    then show "exp (1::real) < 4" by simp
  qed
  also have "(4::real) powr t = (2 powr 2) powr t" by simp
  also have "\<dots> = 2 powr (2 * t)" by (simp only: powr_powr)
  finally have "1 + t < 2 powr (2 * t)" .
  then show ?thesis using assms by (simp add: log_less_iff)
qed

lemma round53_log2_down: "round53 (log 2 562949953421313) = 49"
proof -
  define L where "L = log 2 (562949953421313::real)"
  define d where "d = L - 49"
  define A :: real where "A = 2 ^ 49"
  define U :: real where "U = 1 + 1 / 2 ^ 49"
  have AU: "0 < A" "0 < U" by (simp_all add: A_def U_def)
  have "(562949953421313::real) = A * U" by (simp add: A_def U_def)
  then have "L = log 2 (A * U)" by (simp only: L_def)
  also have "\<dots> = log 2 A + log 2 U" using AU by (rule log_mult_pos)
  also have "log 2 A = real 49" unfolding A_def by (rule log_pow_cancel) simp_all
  finally have d: "d = log 2 (1 + 1 / 2 ^ 49)" by (simp add: d_def U_def)
  have d0: "0 < d" unfolding d by simp
  have "d < 2 * (1 / 2 ^ 49)" unfolding d by (rule log2_one_plus_less) simp
  then have d1: "d * 2 ^ 47 < 1 / 2" by simp
  have L: "L = 49 + d" by (simp add: d_def)
  have "32 \<le> L" "L < 64" using d0 d1 L by simp_all
  then have "2 ^ 5 \<le> L" "L < 2 ^ Suc 5" by simp_all
  then have e: "\<lfloor>log 2 L\<rfloor> = int 5" by (rule floor_log2_eqI)
  have LK: "L * 2 ^ 47 = of_int (49 * 2 ^ 47) + d * 2 ^ 47"
    by (simp add: L algebra_simps)
  have e0: "0 < d * 2 ^ 47" using d0 by simp
  have fl: "\<lfloor>L * 2 ^ 47\<rfloor> = 49 * 2 ^ 47"
  proof (rule floor_unique)
    show "real_of_int (49 * 2 ^ 47) \<le> L * 2 ^ 47" using e0 LK by linarith
    show "L * 2 ^ 47 < real_of_int (49 * 2 ^ 47) + 1" using d1 LK by linarith
  qed
  have "rne (L * 2 ^ 47) = 49 * 2 ^ 47"
    unfolding rne_def fl Let_def using d1 LK by simp
  then show ?thesis
    unfolding L_def [symmetric] using e \<open>32 \<le> L\<close> by (simp add: round53_def)
qed

section \<open>WaitGroup lemmas\<close>

lemma int32_id: "- (2 ^ 31) \<le> x \<Longrightarrow> x < 2 ^ 31 \<Longrightarrow> int32 x = x"
  by (simp add: int32_def signed_take_bit_int_eq_self)

lemma wg_Add_ok: "0 \<le> v + d \<Longrightarrow> v + d < 2 ^ 31 \<Longrightarrow> wg_Add v d = Inr (v + d)"
  by (simp add: wg_Add_def int32_id)

lemma wg_Done_times_ok:
  "int k \<le> v \<Longrightarrow> v < 2 ^ 31 \<Longrightarrow> wg_Done_times k v = Inr (v - int k)"
proof (induction k arbitrary: v)
  case 0
  show ?case by simp
next
  case (Suc k)
  have "wg_Add v (- 1) = Inr (v + (- 1))"
    by (rule wg_Add_ok) (use Suc.prems in simp_all)
  moreover have "wg_Done_times k (v - 1) = Inr (v - 1 - int k)"
    by (rule Suc.IH) (use Suc.prems in simp_all)
  ultimately show ?case by simp
qed

lemma sint_mult_small:
  fixes c r :: uint
  assumes "unat c * unat r < 2 ^ 63"
  shows "sint (c * r) = int (unat c * unat r)"
proof -
  define z where "z = int (unat c * unat r)"
  have "c * r = word_of_int z" by (simp add: z_def)
  then have "sint (c * r) = signed_take_bit 63 z" by (simp add: signed_of_int)
  also have "\<dots> = z"
  proof (rule signed_take_bit_int_eq_self)
    have "0 \<le> z" unfolding z_def by (rule of_nat_0_le_iff)
    then show "- (2 ^ 63) \<le> z" by simp
    have "int (unat c * unat r) < int (2 ^ 63)" using assms by (simp only: of_nat_less_iff)
    then show "z < 2 ^ 63" by (simp add: z_def)
  qed
  finally show ?thesis by (simp add: z_def)
qed

lemma length_cells: "length (cells n) = unat n"
  by (simp add: cells_def)

lemma length_concat_const:
  "length (concat (map (\<lambda>c. map (f c) ys) xs)) = length xs * length ys"
  by (induction xs) simp_all

lemma length_level_tiles:
  "length (level_tiles ext level opt tm) = level_count (uint_conv ext) level opt"
  by (simp add: level_tiles_def level_count_def length_concat_const length_cells split: prod.split)

lemma col_loop_submit:
  "GetLevelGrids (uint_conv ext) level (Width opt) (Height opt) (TileSize opt) = (cols, rows) \<Longrightarrow>
   col_loop (submit ext opt tm level cols rows) cols rows 0 = level_tiles ext level opt tm"
proof -
  have "submit ext opt tm level cols rows c
      = (\<lambda>r. \<lparr>t_dirPath = DirPath opt, t_saver = Saver opt, t_level = level, t_col = c, t_row = r,
               t_format = Format opt, t_m = Crop ext tm (ComputeTileRect opt c r cols rows)\<rparr>)" for c
    by (rule ext) (simp add: submit_def)
  then show "GetLevelGrids (uint_conv ext) level (Width opt) (Height opt) (TileSize opt) = (cols, rows) \<Longrightarrow>
   col_loop (submit ext opt tm level cols rows) cols rows 0 = level_tiles ext level opt tm"
    by (simp add: col_loop_cells level_tiles_def)
qed

lemma level_body_ok:
  assumes d: "w_done st \<le> length (w_tasks st)"
    and wg: "w_wg st = int (length (w_tasks st) - w_done st)"
    and b: "length (w_tasks st) + level_count (uint_conv ext) level (w_opt st) < 2 ^ 31"
  shows "level_body ext st level =
    Inr \<lparr>w_opt = next_opt (uint_conv ext) (w_opt st), w_tm = next_tm ext (w_opt st) (w_tm st),
         w_wg = int (length (w_tasks st) + level_count (uint_conv ext) level (w_opt st)
                     - (w_done st + min (sched ext level) (length (w_tasks st) - w_done st))),
         w_tasks = w_tasks st @ level_tiles ext level (w_opt st) (w_tm st),
         w_done = w_done st + min (sched ext level) (length (w_tasks st) - w_done st)\<rparr>"
proof -
  obtain cols rows where g: "GetLevelGrids (uint_conv ext) level (Width (w_opt st)) (Height (w_opt st))
      (TileSize (w_opt st)) = (cols, rows)"
    by (cases "GetLevelGrids (uint_conv ext) level (Width (w_opt st)) (Height (w_opt st)) (TileSize (w_opt st))")
  define k where "k = min (sched ext level) (length (w_tasks st) - w_done st)"
  define a where "a = unat cols * unat rows"
  have a: "level_count (uint_conv ext) level (w_opt st) = a"
    by (simp add: level_count_def g a_def)
  have k: "k \<le> length (w_tasks st) - w_done st" by (simp add: k_def)
  have small: "length (w_tasks st) + a < 2 ^ 31" using b a by simp
  have v31: "w_wg st < 2 ^ 31" using wg small by simp
  have dn: "wg_Done_times k (w_wg st) = Inr (w_wg st - int k)"
    by (rule wg_Done_times_ok) (use k wg v31 in simp_all)
  have "a < 2 ^ 63" using small by simp
  then have s: "sint (cols * rows) = int a" unfolding a_def by (rule sint_mult_small)
  have "w_wg st - int k + int a = int (length (w_tasks st) + a - (w_done st + k))"
    using wg k d by simp
  moreover have "int (length (w_tasks st) + a - (w_done st + k)) < 2 ^ 31"
    using small by simp
  ultimately have ad: "wg_Add (w_wg st - int k) (sint (cols * rows))
      = Inr (int (length (w_tasks st) + a - (w_done st + k)))"
    unfolding s using wg_Add_ok [of "w_wg st - int k" "int a"] by simp
  show ?thesis
    unfolding level_body_def Let_def g k_def [symmetric] a
    by (simp add: dn ad col_loop_submit [OF g] next_opt_def next_tm_def)
qed

section \<open>Walker lemmas\<close>

lemma walk_ok:
  "w_done st \<le> length (w_tasks st) \<Longrightarrow>
   w_wg st = int (length (w_tasks st) - w_done st) \<Longrightarrow>
   length (w_tasks st) + pyramid_count (uint_conv ext) (w_opt st) (levels_down level) < 2 ^ 31 \<Longrightarrow>
   \<exists>st'. walk ext st level = Inr st' \<and>
     w_opt st' = (next_opt (uint_conv ext) ^^ Suc (unat level)) (w_opt st) \<and>
     w_tasks st' = w_tasks st @ pyramid_tiles ext (w_opt st) (w_tm st) (levels_down level) \<and>
     w_done st' \<le> length (w_tasks st') \<and>
     w_wg st' = int (length (w_tasks st') - w_done st')"
proof (induction ext st level rule: walk.induct)
  case (1 ext st level)
  define cv where "cv = uint_conv ext"
  define k where "k = min (sched ext level) (length (w_tasks st) - w_done st)"
  define st1 where "st1 =
     \<lparr>w_opt = next_opt cv (w_opt st), w_tm = next_tm ext (w_opt st) (w_tm st),
      w_wg = int (length (w_tasks st) + level_count cv level (w_opt st) - (w_done st + k)),
      w_tasks = w_tasks st @ level_tiles ext level (w_opt st) (w_tm st),
      w_done = w_done st + k\<rparr>"
  have k: "k \<le> length (w_tasks st) - w_done st" by (simp add: k_def)
  show ?case
  proof (cases "level = 0")
    case True
    have b: "length (w_tasks st) + level_count cv level (w_opt st) < 2 ^ 31"
      using "1.prems"(3) True by (simp add: levels_down_0 cv_def)
    have lb: "level_body ext st level = Inr st1"
      unfolding st1_def k_def cv_def
      by (rule level_body_ok) (use "1.prems" b in \<open>simp_all add: cv_def\<close>)
    have "walk ext st level = Inr st1"
      by (subst walk.simps, subst lb) (simp add: True)
    moreover have "w_opt st1 = (next_opt (uint_conv ext) ^^ Suc (unat level)) (w_opt st)"
      by (simp add: st1_def True cv_def)
    moreover have "w_tasks st1 = w_tasks st @ pyramid_tiles ext (w_opt st) (w_tm st) (levels_down level)"
      by (simp add: st1_def True levels_down_0)
    moreover have "w_done st1 \<le> length (w_tasks st1)"
      using k "1.prems"(1) by (simp add: st1_def)
    moreover have "w_wg st1 = int (length (w_tasks st1) - w_done st1)"
      by (simp add: st1_def length_level_tiles cv_def)
    ultimately show ?thesis by blast
  next
    case False
    have ld: "levels_down level = level # levels_down (level - 1)"
      using False by (rule levels_down_rec)
    have b: "length (w_tasks st) + level_count cv level (w_opt st) < 2 ^ 31"
      using "1.prems"(3) by (simp add: ld cv_def)
    have lb: "level_body ext st level = Inr st1"
      unfolding st1_def k_def cv_def
      by (rule level_body_ok) (use "1.prems" b in \<open>simp_all add: cv_def\<close>)
    have i1: "w_done st1 \<le> length (w_tasks st1)"
      using k "1.prems"(1) by (simp add: st1_def)
    have i2: "w_wg st1 = int (length (w_tasks st1) - w_done st1)"
      by (simp add: st1_def length_level_tiles cv_def)
    have i3: "length (w_tasks st1) + pyramid_count (uint_conv ext) (w_opt st1) (levels_down (level - 1)) < 2 ^ 31"
      using "1.prems"(3) by (simp add: ld st1_def length_level_tiles cv_def)
    from "1.IH" [OF lb False i1 i2 i3] obtain st' where
      w: "walk ext st1 (level - 1) = Inr st'"
      and o: "w_opt st' = (next_opt (uint_conv ext) ^^ Suc (unat (level - 1))) (w_opt st1)"
      and t: "w_tasks st' = w_tasks st1 @ pyramid_tiles ext (w_opt st1) (w_tm st1) (levels_down (level - 1))"
      and d: "w_done st' \<le> length (w_tasks st')"
      and g: "w_wg st' = int (length (w_tasks st') - w_done st')"
      by blast
    have "0 < unat level" using False by (simp add: unat_gt_0)
    then have u: "Suc (unat (level - 1)) = unat level"
      by (simp add: unat_minus_one False)
    have "walk ext st level = Inr st'"
      by (subst walk.simps, subst lb) (simp add: False w)
    moreover have "w_opt st' = (next_opt (uint_conv ext) ^^ Suc (unat level)) (w_opt st)"
      unfolding o u by (simp add: st1_def cv_def funpow_swap1)
    moreover have "w_tasks st' = w_tasks st @ pyramid_tiles ext (w_opt st) (w_tm st) (levels_down level)"
      unfolding t ld by (simp add: st1_def cv_def)
    ultimately show ?thesis using d g by blast
  qed
qed

lemma length_pyramid_tiles:
  "length (pyramid_tiles ext opt tm ls) = pyramid_count (uint_conv ext) opt ls"
  by (induction ls arbitrary: opt tm) (simp_all add: length_level_tiles)

lemma Generate_ok:
  assumes "tile_count (uint_conv ext) opt < 2 ^ 31"
  shows "Generate ext m opt =
    Inr \<lparr>g_opt = (next_opt (uint_conv ext) ^^ Suc (unat (GetMaxLevel (uint_conv ext) (Width opt) (Height opt)))) opt,
         g_tasks = all_tiles ext m opt,
         g_done = map (run_task ext) (all_tiles ext m opt),
         g_err = None\<rparr>"
proof -
  define L where "L = GetMaxLevel (uint_conv ext) (Width opt) (Height opt)"
  have "\<exists>st'. walk ext (start m opt) L = Inr st' \<and>
     w_opt st' = (next_opt (uint_conv ext) ^^ Suc (unat L)) (w_opt (start m opt)) \<and>
     w_tasks st' = w_tasks (start m opt) @ pyramid_tiles ext (w_opt (start m opt)) (w_tm (start m opt)) (levels_down L) \<and>
     w_done st' \<le> length (w_tasks st') \<and>
     w_wg st' = int (length (w_tasks st') - w_done st')"
    by (rule walk_ok) (use assms in \<open>simp_all add: start_def tile_count_def L_def\<close>)
  then obtain st' where w: "walk ext (start m opt) L = Inr st'"
    and o: "w_opt st' = (next_opt (uint_conv ext) ^^ Suc (unat L)) opt"
    and t: "w_tasks st' = all_tiles ext m opt"
    and d: "w_done st' \<le> length (w_tasks st')"
    and g: "w_wg st' = int (length (w_tasks st') - w_done st')"
    by (auto simp: start_def all_tiles_def L_def)
  have len: "length (w_tasks st') = tile_count (uint_conv ext) opt"
    by (simp add: t all_tiles_def tile_count_def length_pyramid_tiles)
  have v: "w_wg st' < 2 ^ 31" using g len assms by simp
  have "wg_Done_times (length (w_tasks st') - w_done st') (w_wg st')
      = Inr (w_wg st' - int (length (w_tasks st') - w_done st'))"
    by (rule wg_Done_times_ok) (use g v in simp_all)
  then have dn: "wg_Done_times (length (w_tasks st') - w_done st') (w_wg st') = Inr 0"
    using g by simp
  show ?thesis
    unfolding Generate_def Let_def L_def [symmetric]
    by (simp add: w dn) (simp add: o t)
qed

lemma level_body_opt:
  "level_body ext st level = Inr st' \<Longrightarrow> w_opt st' = next_opt (uint_conv ext) (w_opt st)"
  by (auto simp: level_body_def Let_def next_opt_def split: sum.splits prod.splits)

lemma walk_opt:
  "walk ext st level = Inr st' \<Longrightarrow>
     w_opt st' = (next_opt (uint_conv ext) ^^ Suc (unat level)) (w_opt st)"
proof (induction ext st level arbitrary: st' rule: walk.induct)
  case (1 ext st level)
  from "1.prems" obtain st1 where lb: "level_body ext st level = Inr st1"
    by (subst (asm) walk.simps) (auto split: sum.splits)
  have o1: "w_opt st1 = next_opt (uint_conv ext) (w_opt st)"
    using lb by (rule level_body_opt)
  have e: "walk ext st level = (if level = 0 then Inr st1 else walk ext st1 (level - 1))"
    by (subst walk.simps, subst lb) simp
  show ?case
  proof (cases "level = 0")
    case True
    from "1.prems" have "st' = st1"
      unfolding e by (simp add: True)
    then show ?thesis by (simp add: o1 True)
  next
    case False
    from "1.prems" have w: "walk ext st1 (level - 1) = Inr st'"
      unfolding e by (simp add: False)
    have "w_opt st' = (next_opt (uint_conv ext) ^^ Suc (unat (level - 1))) (w_opt st1)"
      using lb False w by (rule "1.IH")
    moreover have "Suc (unat (level - 1)) = unat level"
      using False by (simp add: unat_minus_one unat_gt_0 [symmetric] del: unat_gt_0)
    ultimately have "w_opt st' = (next_opt (uint_conv ext) ^^ unat level) (next_opt (uint_conv ext) (w_opt st))"
      by (simp add: o1 del: funpow.simps)
    then show ?thesis
      by (simp only: funpow_Suc_right o_apply)
  qed
qed

lemma Generate_opt:
  assumes "Generate ext m opt = Inr g"
  shows "g_opt g = (next_opt (uint_conv ext)
                      ^^ Suc (unat (GetMaxLevel (uint_conv ext) (Width opt) (Height opt)))) opt"
proof -
  from assms obtain st where w: "walk ext (start m opt) (GetMaxLevel (uint_conv ext) (Width opt) (Height opt)) = Inr st"
    and g: "g_opt g = w_opt st"
    by (auto simp: Generate_def Let_def split: sum.splits if_splits)
  from walk_opt [OF w] g show ?thesis by (simp add: start_def del: funpow.simps)
qed

section \<open>Pyramid lemmas\<close>

lemma next_opt_iter:
  "(next_opt cv ^^ n) opt
     = opt\<lparr>Width := (half cv ^^ n) (Width opt), Height := (half cv ^^ n) (Height opt)\<rparr>"
  by (induction n) (simp_all add: next_opt_def)

lemma Generate_nil: "Generate ext m opt = Inr g \<Longrightarrow> g_err g = None"
  by (auto simp: Generate_def Let_def split: sum.splits if_splits)

lemma level_tiles_fields:
  "t \<in> set (level_tiles ext level opt tm) \<Longrightarrow>
     t_level t = level \<and> t_format t = Format opt \<and> t_dirPath t = DirPath opt \<and> t_saver t = Saver opt"
  by (auto simp: level_tiles_def split: prod.splits)

lemma pyramid_tiles_fields:
  "t \<in> set (pyramid_tiles ext opt tm ls) \<Longrightarrow>
     t_level t \<in> set ls \<and> t_format t = Format opt \<and> t_dirPath t = DirPath opt \<and> t_saver t = Saver opt"
proof (induction ls arbitrary: opt tm)
  case Nil
  then show ?case by simp
next
  case (Cons l ls)
  from Cons.prems consider "t \<in> set (level_tiles ext l opt tm)"
    | "t \<in> set (pyramid_tiles ext (next_opt (uint_conv ext) opt) (next_tm ext opt tm) ls)"
    by auto
  then show ?case
  proof cases
    case 1
    then show ?thesis using level_tiles_fields [of t ext l opt tm] by simp
  next
    case 2
    then show ?thesis using Cons.IH [of "next_opt (uint_conv ext) opt" "next_tm ext opt tm"]
      by (simp add: next_opt_def)
  qed
qed

lemma pyramid_tiles_filter:
  "lv \<notin> set ls \<Longrightarrow> filter (\<lambda>t. t_level t = lv) (pyramid_tiles ext opt tm ls) = []"
  using pyramid_tiles_fields [of _ ext opt tm ls] by (auto simp: filter_empty_conv)

lemma pyramid_tiles_append:
  "\<exists>tm'. pyramid_tiles ext opt tm (xs @ ys)
     = pyramid_tiles ext opt tm xs @ pyramid_tiles ext ((next_opt (uint_conv ext) ^^ length xs) opt) tm' ys"
proof (induction xs arbitrary: opt tm)
  case Nil
  show ?case by (rule exI [of _ tm]) simp
next
  case (Cons x xs)
  from Cons.IH [of "next_opt (uint_conv ext) opt" "next_tm ext opt tm"]
  show ?case by (simp add: funpow_swap1)
qed

lemma level_tiles_unit:
  assumes "Width opt = 1" "Height opt = 1" "0 < unat (TileSize opt)"
  shows "level_tiles ext level opt tm =
    [\<lparr>t_dirPath = DirPath opt, t_saver = Saver opt, t_level = level, t_col = 0, t_row = 0,
      t_format = Format opt, t_m = Crop ext tm (ComputeTileRect opt 0 0 1 1)\<rparr>]"
  using assms by (simp add: level_tiles_def GetLevelGrids_unit cells_1)

lemma level_count_unit:
  assumes "Width opt = 1" "Height opt = 1" "0 < unat (TileSize opt)"
  shows "level_count cv level opt = 1"
  using assms by (simp add: level_count_def GetLevelGrids_unit)

lemma half_one: "half cv 1 = 1"
  using half_iter [of 1 1 cv] by simp

lemma half_two: "half cv 2 = 1"
proof -
  have "unat (half cv 2) = (unat (2::uint) + 1) div 2" by (rule half_unat) simp_all
  then show ?thesis by (simp add: word_unat_eq_iff)
qed

lemma GetMaxLevel_one: "GetMaxLevel cv 1 1 = 0"
proof -
  have "unat (GetMaxLevel cv 1 1) = nat \<lceil>log 2 (real (max (unat (1::uint)) (unat (1::uint))))\<rceil>"
    by (rule GetMaxLevel_ceiling_log) simp_all
  then show ?thesis by (simp add: unat_eq_zero)
qed

lemma GetMaxLevel_2x1: "GetMaxLevel cv 2 1 = 1"
proof -
  have "nat \<lceil>log 2 (real (2::nat))\<rceil> = 0 + 1" by (rule nat_ceiling_log2) simp_all
  moreover have "unat (GetMaxLevel cv 2 1) = nat \<lceil>log 2 (real (max (unat (2::uint)) (unat (1::uint))))\<rceil>"
    by (rule GetMaxLevel_ceiling_log) simp_all
  ultimately show ?thesis by (simp add: word_unat_eq_iff)
qed

lemma GetLevelGrids_2x1: "GetLevelGrids cv level 2 1 1 = (2, 1)"
proof -
  have "unat (fst (GetLevelGrids cv level 2 1 1)) = nat \<lceil>real (unat (2::uint)) / real (unat (1::uint))\<rceil> \<and>
        unat (snd (GetLevelGrids cv level 2 1 1)) = nat \<lceil>real (unat (1::uint)) / real (unat (1::uint))\<rceil>"
    by (rule GetLevelGrids_ceiling) simp_all
  then show ?thesis by (simp add: prod_eq_iff word_unat_eq_iff)
qed

lemma levels_down_1: "levels_down 1 = [1, 0]"
  using levels_down_rec [of 1] by (simp add: levels_down_0)

lemma cells_2: "cells 2 = [0, 1]"
  by (simp add: cells_def upt_rec)

lemma GetLevelGrids_big: "GetLevelGrids cv level 2147483648 1 1 = (2147483648, 1)"
proof -
  have "unat (fst (GetLevelGrids cv level 2147483648 1 1))
          = nat \<lceil>real (unat (2147483648::uint)) / real (unat (1::uint))\<rceil> \<and>
        unat (snd (GetLevelGrids cv level 2147483648 1 1))
          = nat \<lceil>real (unat (1::uint)) / real (unat (1::uint))\<rceil>"
    by (rule GetLevelGrids_ceiling) simp_all
  then show ?thesis by (simp add: prod_eq_iff word_unat_eq_iff)
qed

lemma wg_Add_big: "wg_Add 0 (sint (2147483648 * 1 :: uint)) = Inl NegativeCounter"
  by (simp add: wg_Add_def int32_def)

lemma Generate_big: "Generate ext m opt_big = Inl NegativeCounter"
proof -
  have "level_body ext (start m opt_big) level = Inl NegativeCounter" for level
    using wg_Add_big
    by (simp add: level_body_def start_def opt_big_def GetLevelGrids_big)
  then have "walk ext (start m opt_big) level = Inl NegativeCounter" for level
    by (subst walk.simps) simp
  then show ?thesis by (simp add: Generate_def)
qed

lemma GetMaxLevel_2p49_1: "GetMaxLevel cv 562949953421313 1 = 49"
proof -
  have "float64 562949953421313 = 562949953421313"
    using float64_exact [of 562949953421313] by simp
  then have "math_Max (float64 562949953421313) (float64 1) = 562949953421313"
    by (simp add: math_Max_def float64_one)
  then have "math_Log2 (math_Max (float64 562949953421313) (float64 1)) = Num 49"
    by (simp add: math_Log2_def round53_log2_down)
  moreover have "to_uint cv (math_Ceil (Num 49)) = word_of_int 49"
    using to_uint_Ceil [of 49 cv] by simp
  ultimately show ?thesis by (simp add: GetMaxLevel_def)
qed

lemma half_power_plus_one:
  "n \<le> k \<Longrightarrow> k \<le> 52 \<Longrightarrow> unat w = 2 ^ k + 1 \<Longrightarrow> unat ((half cv ^^ n) w) = 2 ^ (k - n) + 1"
proof (induction n)
  case 0
  then show ?case by simp
next
  case (Suc n)
  then obtain j where j: "k - n = Suc j" by (metis Suc_diff_Suc Suc_le_lessD)
  define v where "v = (half cv ^^ n) w"
  have v: "unat v = 2 ^ Suc j + 1" using Suc j by (simp add: v_def)
  have "(2::nat) ^ Suc j \<le> 2 ^ 52" using j Suc.prems(2) by (intro power_increasing) simp_all
  then have "unat v \<le> 2 ^ 53" using v by simp
  then have "unat (half cv v) = (unat v + 1) div 2" using v by (intro half_unat) simp_all
  then have "unat (half cv v) = 2 ^ j + 1" using v by simp
  moreover have "k - Suc n = j" using j by simp
  ultimately show ?case by (simp add: v_def)
qed

lemma unit_pyramid:
  assumes "Width opt = 1" "Height opt = 1" "0 < unat (TileSize opt)"
  shows "tile_count cv opt = 1"
    and "all_tiles ext m opt =
      [\<lparr>t_dirPath = DirPath opt, t_saver = Saver opt, t_level = 0, t_col = 0, t_row = 0,
        t_format = Format opt, t_m = Crop ext m (ComputeTileRect opt 0 0 1 1)\<rparr>]"
    and "(next_opt cv ^^ Suc (unat (GetMaxLevel cv (Width opt) (Height opt)))) opt = opt"
  using assms
  by (simp_all add: tile_count_def all_tiles_def GetMaxLevel_one levels_down_0 level_count_unit
      level_tiles_unit next_opt_def half_one)

lemma opt_2x1_pyramid:
  "tile_count cv opt_2x1 = 3"
  "map (\<lambda>t. (t_level t, t_col t, t_row t)) (all_tiles ext m opt_2x1) = [(1, 0, 0), (1, 1, 0), (0, 0, 0)]"
  "(next_opt cv ^^ Suc (unat (GetMaxLevel cv (Width opt_2x1) (Height opt_2x1)))) opt_2x1
     = opt_2x1\<lparr>Width := 1\<rparr>"
proof -
  have n: "next_opt cv opt_2x1 = opt_2x1\<lparr>Width := 1\<rparr>" for cv
    by (simp add: next_opt_def opt_2x1_def half_two half_one)
  have n2: "next_opt cv (opt_2x1\<lparr>Width := 1\<rparr>) = opt_2x1\<lparr>Width := 1\<rparr>" for cv
    by (simp add: next_opt_def opt_2x1_def half_one)
  have L: "GetMaxLevel cv (Width opt_2x1) (Height opt_2x1) = 1" for cv
    by (simp add: opt_2x1_def GetMaxLevel_2x1)
  have c1: "level_count cv 1 opt_2x1 = 2"
    by (simp add: level_count_def opt_2x1_def GetLevelGrids_2x1)
  have c0: "level_count cv 0 (opt_2x1\<lparr>Width := 1\<rparr>) = 1"
    by (rule level_count_unit) (simp_all add: opt_2x1_def)
  show "tile_count cv opt_2x1 = 3"
    by (simp add: tile_count_def L levels_down_1 n c1 c0)
  have t1: "map (\<lambda>t. (t_level t, t_col t, t_row t)) (level_tiles ext 1 opt_2x1 m) = [(1, 0, 0), (1, 1, 0)]"
    by (simp add: level_tiles_def opt_2x1_def GetLevelGrids_2x1 cells_2 cells_1)
  have t0: "map (\<lambda>t. (t_level t, t_col t, t_row t)) (level_tiles ext 0 (opt_2x1\<lparr>Width := 1\<rparr>) tm) = [(0, 0, 0)]" for tm
    by (subst level_tiles_unit) (simp_all add: opt_2x1_def)
  show "map (\<lambda>t. (t_level t, t_col t, t_row t)) (all_tiles ext m opt_2x1) = [(1, 0, 0), (1, 1, 0), (0, 0, 0)]"
    by (simp add: all_tiles_def L levels_down_1 n t1 t0)
  show "(next_opt cv ^^ Suc (unat (GetMaxLevel cv (Width opt_2x1) (Height opt_2x1)))) opt_2x1
     = opt_2x1\<lparr>Width := 1\<rparr>"
    by (simp add: L n n2)
qed

lemma tile_path_png: "tile_path ''out'' 0 0 0 ''png'' = ''out/0/0_0.png''"
  by (simp add: tile_path_def decimal.simps)

lemma max_level_bound:
  assumes "0 < unat (w :: uint)" "unat w \<le> 2 ^ 48" "0 < unat (h :: uint)" "unat h \<le> 2 ^ 48"
  shows "unat (GetMaxLevel cv w h) \<le> 53"
    and "unat w \<le> 2 ^ unat (GetMaxLevel cv w h)"
    and "unat h \<le> 2 ^ unat (GetMaxLevel cv w h)"
proof -
  define mx where "mx = max (unat w) (unat h)"
  have n: "unat (GetMaxLevel cv w h) = nat \<lceil>log 2 (real mx)\<rceil>"
    unfolding mx_def using assms by (rule GetMaxLevel_ceiling_log)
  have mx: "0 < mx" "mx \<le> 2 ^ 48" using assms by (simp_all add: mx_def)
  have "log 2 (real mx) \<le> 48" using log2_of_power_le [OF mx(2) mx(1)] by simp
  then have "\<lceil>log 2 (real mx)\<rceil> \<le> 48" by (simp add: ceiling_le_iff)
  then show "unat (GetMaxLevel cv w h) \<le> 53" using n by simp
  have "mx \<le> 2 ^ unat (GetMaxLevel cv w h)" unfolding n using mx(1) by (rule le_pow_ceiling_log2)
  then show "unat w \<le> 2 ^ unat (GetMaxLevel cv w h)" "unat h \<le> 2 ^ unat (GetMaxLevel cv w h)"
    by (simp_all add: mx_def)
qed

lemma half_iter_Suc:
  "0 < unat w \<Longrightarrow> unat w \<le> 2 ^ n \<Longrightarrow> n \<le> 53 \<Longrightarrow> (half cv ^^ Suc n) w = 1"
  using half_iter [of w n cv] by (simp add: half_one)

lemma pyramid_tiles_snoc:
  "pyramid_tiles ext opt tm (xs @ ys)
     = pyramid_tiles ext opt tm xs
       @ pyramid_tiles ext ((next_opt (uint_conv ext) ^^ length xs) opt) (level_image ext opt tm (length xs)) ys"
proof (induction xs arbitrary: opt tm)
  case Nil
  show ?case by simp
next
  case (Cons x xs)
  from Cons.IH [of "next_opt (uint_conv ext) opt" "next_tm ext opt tm"]
  show ?case by (simp add: funpow_swap1)
qed

lemma level_image_dims:
  "level_image ext_dims opt tm (Suc n)
     = (sint (Width ((next_opt (uint_conv ext_dims) ^^ Suc n) opt)),
        sint (Height ((next_opt (uint_conv ext_dims) ^^ Suc n) opt)))"
proof (induction n arbitrary: opt tm)
  case 0
  show ?case by (simp add: next_tm_def next_opt_def ext_dims_def)
next
  case (Suc n)
  have "level_image ext_dims opt tm (Suc (Suc n))
      = level_image ext_dims (next_opt (uint_conv ext_dims) opt) (next_tm ext_dims opt tm) (Suc n)"
    by simp
  also have "\<dots> = (sint (Width ((next_opt (uint_conv ext_dims) ^^ Suc n) (next_opt (uint_conv ext_dims) opt))),
        sint (Height ((next_opt (uint_conv ext_dims) ^^ Suc n) (next_opt (uint_conv ext_dims) opt))))"
    by (rule Suc.IH)
  finally show ?case by (simp only: funpow_Suc_right o_apply)
qed

lemma GetLevelGrids_single:
  assumes "0 < unat w" "unat w \<le> unat t" "0 < unat h" "unat h \<le> unat t" "unat t \<le> 2 ^ 53"
  shows "GetLevelGrids cv level w h t = (1, 1)"
proof -
  have t: "0 < unat t" using assms by simp
  have g: "unat (fst (GetLevelGrids cv level w h t)) = nat \<lceil>real (unat w) / real (unat t)\<rceil> \<and>
        unat (snd (GetLevelGrids cv level w h t)) = nat \<lceil>real (unat h) / real (unat t)\<rceil>"
    by (rule GetLevelGrids_ceiling) (use assms in simp_all)
  have c: "\<lceil>real a / real b\<rceil> = 1" if "0 < a" "a \<le> b" for a b :: nat
  proof -
    have "0 < real a / real b" using that by simp
    moreover have "real a / real b \<le> 1" using that by simp
    ultimately show ?thesis by (simp add: ceiling_eq_iff)
  qed
  have "unat (fst (GetLevelGrids cv level w h t)) = unat (1 :: uint)"
    "unat (snd (GetLevelGrids cv level w h t)) = unat (1 :: uint)"
    using g c [OF assms(1,2)] c [OF assms(3,4)] by (simp_all del: of_nat_unat)
  then have "fst (GetLevelGrids cv level w h t) = 1" "snd (GetLevelGrids cv level w h t) = 1"
    by (simp_all only: word_unat_eq_iff)
  then show ?thesis by (simp add: prod_eq_iff)
qed

lemma half_le:
  assumes "0 < unat w" "unat w \<le> 2 ^ 53"
  shows "0 < unat (half cv w)" "unat (half cv w) \<le> unat w"
  using half_unat [OF assms, of cv] assms(1) by simp_all

lemma pyramid_count_single:
  assumes "0 < unat (Width opt)" "unat (Width opt) \<le> unat (TileSize opt)"
    "0 < unat (Height opt)" "unat (Height opt) \<le> unat (TileSize opt)"
    "unat (TileSize opt) \<le> 2 ^ 53"
  shows "pyramid_count cv opt ls = length ls"
  using assms
proof (induction ls arbitrary: opt)
  case Nil
  show ?case by simp
next
  case (Cons l ls)
  have c: "level_count cv l opt = 1"
    using Cons.prems by (simp add: level_count_def GetLevelGrids_single)
  have w: "0 < unat (half cv (Width opt))" "unat (half cv (Width opt)) \<le> unat (Width opt)"
    using Cons.prems by (simp_all add: half_le)
  have h: "0 < unat (half cv (Height opt))" "unat (half cv (Height opt)) \<le> unat (Height opt)"
    using Cons.prems by (simp_all add: half_le)
  have "pyramid_count cv (next_opt cv opt) ls = length ls"
    by (rule Cons.IH) (use Cons.prems w h in \<open>simp_all add: next_opt_def\<close>)
  with c show ?case by simp
qed

lemma opt_wide_run:
  "Generate ext_dims (562949953421313, 1) opt_wide = Inr g \<Longrightarrow>
     map (\<lambda>t. (t_col t, t_row t, t_m t)) (filter (\<lambda>t. t_level t = 0) (g_tasks g)) = [(0, 0, (2, 1))]"
  "\<exists>g. Generate ext_dims (562949953421313, 1) opt_wide = Inr g"
proof -
  define cv where "cv = uint_conv ext_dims"
  have W: "Width opt_wide = 562949953421313" "Height opt_wide = 1" "TileSize opt_wide = 562949953421313"
    by (simp_all add: opt_wide_def)
  have L: "GetMaxLevel cv (Width opt_wide) (Height opt_wide) = 49"
    unfolding W by (rule GetMaxLevel_2p49_1)
  have "pyramid_count cv opt_wide (levels_down 49) = length (levels_down (49 :: uint))"
    by (rule pyramid_count_single) (simp_all add: W)
  then have tc: "tile_count (uint_conv ext_dims) opt_wide < 2 ^ 31"
    by (simp add: tile_count_def L [unfolded cv_def] length_levels_down cv_def)
  note ok = Generate_ok [OF tc, of "(562949953421313, 1)"]
  show "\<exists>g. Generate ext_dims (562949953421313, 1) opt_wide = Inr g"
    using ok by blast
  define xs :: "uint list" where "xs = map word_of_nat (rev [1 ..< Suc (unat (49 :: uint))])"
  have len: "length xs = 49" by (simp add: xs_def)
  have ld: "levels_down 49 = xs @ [0]" unfolding xs_def by (rule levels_down_snoc)
  have "0 \<notin> set xs" unfolding xs_def by (rule zero_notin_upper_levels)
  then have f1: "filter (\<lambda>t. t_level t = 0) (pyramid_tiles ext_dims opt_wide m xs) = []" for m
    by (rule pyramid_tiles_filter)
  define o1 where "o1 = (next_opt cv ^^ 49) opt_wide"
  have "unat ((half cv ^^ 49) (562949953421313 :: uint)) = 2 ^ (49 - 49) + 1"
    by (rule half_power_plus_one) simp_all
  then have "unat ((half cv ^^ 49) (562949953421313 :: uint)) = unat (2 :: uint)" by simp
  then have hw: "(half cv ^^ 49) (562949953421313 :: uint) = 2"
    by (simp only: word_unat_eq_iff)
  have hh: "(half cv ^^ 49) (1 :: uint) = 1"
    by (rule half_iter) simp_all
  have o1: "Width o1 = 2" "Height o1 = 1" "TileSize o1 = 562949953421313"
    unfolding o1_def next_opt_iter W hw hh by (simp_all add: W)
  have g0: "GetLevelGrids cv 0 (Width o1) (Height o1) (TileSize o1) = (1, 1)"
    by (rule GetLevelGrids_single) (simp_all add: o1)
  have im: "level_image ext_dims opt_wide m 49 = (2, 1)" for m
  proof -
    have "level_image ext_dims opt_wide m (Suc 48)
      = (sint (Width ((next_opt (uint_conv ext_dims) ^^ Suc 48) opt_wide)),
         sint (Height ((next_opt (uint_conv ext_dims) ^^ Suc 48) opt_wide)))"
      by (rule level_image_dims)
    moreover have "(next_opt (uint_conv ext_dims) ^^ Suc 48) opt_wide = o1"
      by (simp only: o1_def cv_def) simp
    ultimately show ?thesis by (simp add: o1 del: funpow.simps level_image.simps)
  qed
  have f0: "map (\<lambda>t. (t_col t, t_row t, t_m t))
      (filter (\<lambda>t. t_level t = 0) (pyramid_tiles ext_dims o1 (2, 1) [0])) = [(0, 0, (2, 1))]"
    using g0 by (simp add: level_tiles_def cells_1 cv_def) (simp add: ext_dims_def)
  have at: "map (\<lambda>t. (t_col t, t_row t, t_m t)) (filter (\<lambda>t. t_level t = 0)
       (all_tiles ext_dims (562949953421313, 1) opt_wide)) = [(0, 0, (2, 1))]"
    unfolding all_tiles_def L [unfolded cv_def] ld pyramid_tiles_snoc len im
      o1_def [unfolded cv_def, symmetric]
    using f1 f0 by simp
  assume "Generate ext_dims (562949953421313, 1) opt_wide = Inr g"
  with ok have "g_tasks g = all_tiles ext_dims (562949953421313, 1) opt_wide" by simp
  with at show "map (\<lambda>t. (t_col t, t_row t, t_m t)) (filter (\<lambda>t. t_level t = 0) (g_tasks g)) = [(0, 0, (2, 1))]"
    by simp
qed

section \<open>A tile size of zero\<close>

text \<open>
  A tile size of 0 where \<^verbatim>\<open>uint(+Inf)\<close> is \<open>2 ^ 63\<close>: the grid has \<open>2 ^ 63\<close> columns and rows,
  their product wraps to 0, \<^verbatim>\<open>wg.Add(0)\<close> passes, and the first tile task to return panics
  in its \<^verbatim>\<open>wg.Done()\<close>, under every schedule.
\<close>

lemma float64_zero: "float64 0 = 0"
  by (simp add: float64_def round53_def)

lemma GetLevelGrids_zero_tile:
  "GetLevelGrids cv level 1 1 0 = (cv PosInf, cv PosInf)"
  by (simp add: GetLevelGrids_def float64_one float64_zero f64_div_def math_Ceil_def to_uint_def)

lemma wg_Done_first: "0 < k \<Longrightarrow> wg_Done_times k 0 = Inl NegativeCounter"
  by (cases k) (simp_all add: wg_Add_def int32_def)

lemma Generate_tile_size_zero:
  assumes "Width opt = 1" "Height opt = 1" "TileSize opt = 0" "uint_conv ext PosInf = 2 ^ 63"
  shows "Generate ext m opt = Inl NegativeCounter"
proof -
  define c :: uint where "c = 2 ^ 63"
  have cc: "c * c = 0" by (simp add: c_def)
  have uc: "unat c = 2 ^ 63" by (simp add: c_def)
  have g: "GetLevelGrids (uint_conv ext) 0 (Width opt) (Height opt) (TileSize opt) = (c, c)"
    by (simp add: assms GetLevelGrids_zero_tile c_def)
  have t: "col_loop (submit ext opt m 0 c c) c c 0 = level_tiles ext 0 opt m"
    using g by (rule col_loop_submit)
  have len: "length (level_tiles ext 0 opt m) = 2 ^ 63 * 2 ^ 63"
    by (simp add: length_level_tiles level_count_def g uc)
  have a0: "wg_Add 0 0 = Inr 0" by (simp add: wg_Add_def int32_def)
  have lb: "level_body ext (start m opt) 0 =
      Inr \<lparr>w_opt = next_opt (uint_conv ext) opt, w_tm = next_tm ext opt m, w_wg = 0,
           w_tasks = level_tiles ext 0 opt m, w_done = 0\<rparr>"
    by (simp add: level_body_def start_def g cc a0 t next_opt_def next_tm_def)
  have w: "walk ext (start m opt) 0 =
      Inr \<lparr>w_opt = next_opt (uint_conv ext) opt, w_tm = next_tm ext opt m, w_wg = 0,
           w_tasks = level_tiles ext 0 opt m, w_done = 0\<rparr>"
    by (subst walk.simps, subst lb) simp
  have "0 < length (level_tiles ext 0 opt m)" by (simp add: len)
  then have d: "wg_Done_times (length (level_tiles ext 0 opt m)) 0 = Inl NegativeCounter"
    by (rule wg_Done_first)
  show ?thesis
    by (simp add: Generate_def assms(1,2) GetMaxLevel_one w d)
qed

section \<open>Results\<close>

subsection \<open>C1: clamping of the tile rectangle\<close>

text \<open>
  C1 asks that \<open>ComputeTileRect\<close> clamps every edge to the image, and that for width 200,
  tile size 256, overlap 1 and a single column the right edge is 200. The code does not:
  the branch \<^verbatim>\<open>col == 0\<close> always sets the right edge to \<^verbatim>\<open>TileSize + Overlap\<close>, here 257,
  although the grid of this level does have a single column; only the branch for a last
  column other than the first sets it to the width.
\<close>

theorem ComputeTileRect_first_column_unclamped:
  "Max_X (ComputeTileRect opt_200 0 0 1 1) = 257 \<and> sint (Width opt_200) = 200 \<and>
   GetLevelGrids cv0 0 (Width opt_200) (Height opt_200) (TileSize opt_200) = (1, 1)"
proof -
  have "unat (fst (GetLevelGrids cv0 0 200 200 256)) = nat \<lceil>real (unat (200::uint)) / real (unat (256::uint))\<rceil> \<and>
        unat (snd (GetLevelGrids cv0 0 200 200 256)) = nat \<lceil>real (unat (200::uint)) / real (unat (256::uint))\<rceil>"
    by (rule GetLevelGrids_ceiling) simp_all
  then have "unat (fst (GetLevelGrids cv0 0 200 200 256)) = 1" "unat (snd (GetLevelGrids cv0 0 200 200 256)) = 1"
    by simp_all
  then have "GetLevelGrids cv0 0 200 200 256 = (1, 1)"
    by (simp add: prod_eq_iff word_unat_eq_iff)
  then show ?thesis
    by (simp add: ComputeTileRect_def opt_200_def ZR_def)
qed

subsection \<open>C2: errors of tile tasks\<close>

text \<open>
  C2, as stated (a failing tile task makes the result of \<open>Generate\<close> a non-nil aggregated
  error), fails: with a saver that rejects every file, the one tile task of a 1 by 1 image
  returns the saver's error, and \<open>Generate\<close> returns nil.
\<close>

theorem Generate_returns_nil_counterexample:
  "Generate ext0 () opt_fail =
     Inr \<lparr>g_opt = opt_fail,
          g_tasks = [\<lparr>t_dirPath = ''out'', t_saver = Saver opt_fail, t_level = 0, t_col = 0,
                      t_row = 0, t_format = PNG, t_m = ()\<rparr>],
          g_done = [\<lparr>stored = [(''out/0/0_0.png'', [])], returned = Some ''disk full''\<rparr>],
          g_err = None\<rparr>"
proof -
  have u: "Width opt_fail = 1" "Height opt_fail = 1" "0 < unat (TileSize opt_fail)"
    by (simp_all add: opt_fail_def)
  have "tile_count (uint_conv ext0) opt_fail < 2 ^ 31"
    using unit_pyramid(1) [OF u, of "uint_conv ext0"] by simp
  from Generate_ok [OF this, of "()"] show ?thesis
    unfolding unit_pyramid(2) [OF u] unit_pyramid(3) [OF u]
    by (simp add: run_task_def SaveTile_def)
      (simp add: opt_fail_def ext0_def PNG_def JPEG_def tile_path_png)
qed

text \<open>
  C2, amended: whenever \<open>Generate\<close> returns, its result is nil, whatever its tile tasks
  returned; the error of a failing task (the encoder's, or else the saver's) is the return
  value of its \<open>SaveTile\<close> call, which the \<^verbatim>\<open>go\<close> statement discards. For a pyramid of fewer
  than \<open>2 ^ 31\<close> tiles \<open>Generate\<close> does return, under every schedule of its tile tasks,
  having started the tile tasks of the pyramid, each of which has run \<open>SaveTile\<close> with the
  path, the saver and the format of the \<^verbatim>\<open>Option\<close>.
\<close>

theorem Generate_returns_nil:
  "(Generate ext m opt = Inr g \<longrightarrow> g_err g = None) \<and>
   (tile_count (uint_conv ext) opt < 2 ^ 31 \<longrightarrow>
      (\<exists>g'. Generate ext m opt = Inr g' \<and> g_err g' = None \<and> g_tasks g' = all_tiles ext m opt \<and>
         g_done g' = map (\<lambda>t. SaveTile ext (DirPath opt) (Saver opt) (t_level t) (t_col t) (t_row t)
                                (Format opt) (t_m t)) (g_tasks g')))"
proof (intro conjI impI)
  assume "Generate ext m opt = Inr g"
  then show "g_err g = None" by (rule Generate_nil)
next
  assume a: "tile_count (uint_conv ext) opt < 2 ^ 31"
  have "run_task ext t
      = SaveTile ext (DirPath opt) (Saver opt) (t_level t) (t_col t) (t_row t) (Format opt) (t_m t)"
    if "t \<in> set (all_tiles ext m opt)" for t
    using pyramid_tiles_fields [OF that [unfolded all_tiles_def]]
    by (simp add: run_task_def)
  then have "map (run_task ext) (all_tiles ext m opt)
      = map (\<lambda>t. SaveTile ext (DirPath opt) (Saver opt) (t_level t) (t_col t) (t_row t)
                    (Format opt) (t_m t)) (all_tiles ext m opt)"
    by simp
  with Generate_ok [OF a, of m]
  show "\<exists>g'. Generate ext m opt = Inr g' \<and> g_err g' = None \<and> g_tasks g' = all_tiles ext m opt \<and>
         g_done g' = map (\<lambda>t. SaveTile ext (DirPath opt) (Saver opt) (t_level t) (t_col t) (t_row t)
                                (Format opt) (t_m t)) (g_tasks g')"
    by simp
qed

theorem Generate_returns_nil_witness:
  "tile_count (uint_conv ext0) opt_fail < 2 ^ 31 \<and>
   (\<exists>g. Generate ext0 () opt_fail = Inr g \<and> g_err g = None \<and>
        g_done g = [\<lparr>stored = [(''out/0/0_0.png'', [])], returned = Some ''disk full''\<rparr>])"
proof -
  have u: "Width opt_fail = 1" "Height opt_fail = 1" "0 < unat (TileSize opt_fail)"
    by (simp_all add: opt_fail_def)
  have "tile_count (uint_conv ext0) opt_fail = 1"
    using u by (rule unit_pyramid)
  then have c: "tile_count (uint_conv ext0) opt_fail < 2 ^ 31" by simp
  with Generate_returns_nil [of ext0 "()" opt_fail]
  obtain g where g: "Generate ext0 () opt_fail = Inr g" "g_tasks g = all_tiles ext0 () opt_fail"
    "g_done g = map (\<lambda>t. SaveTile ext0 (DirPath opt_fail) (Saver opt_fail) (t_level t) (t_col t)
                          (t_row t) (Format opt_fail) (t_m t)) (g_tasks g)"
    by blast
  from Generate_returns_nil [of ext0 "()" opt_fail g] g(1)
  have n: "g_err g = None" by blast
  have r: "g_done g = [\<lparr>stored = [(''out/0/0_0.png'', [])], returned = Some ''disk full''\<rparr>]"
    unfolding g(3) g(2) unit_pyramid(2) [OF u]
    by (simp add: SaveTile_def)
      (simp add: opt_fail_def ext0_def PNG_def JPEG_def tile_path_png)
  show ?thesis
    by (intro conjI exI [of _ g]) (rule c g(1) n r)+
qed

subsection \<open>C3: the core regions tile the canvas\<close>

text \<open>
  C3 asks that the core regions over the grid of a level partition the canvas, their
  areas adding up to width * height. On the code this fails for a level narrower than a
  tile, by the defect of C1: for a 200 by 200 level with tile size 256 and no overlap the
  grid is the single tile (0, 0), whose rectangle is 256 by 256, so the areas add up to
  65536 where the canvas has 40000 pixels.
\<close>

theorem core_area_sum_single_tile:
  "core_area_sum cv0 0 opt_200_0 = 65536 \<and>
   int (unat (Width opt_200_0)) * int (unat (Height opt_200_0)) = 40000"
proof -
  have "unat (fst (GetLevelGrids cv0 0 200 200 256)) = nat \<lceil>real (unat (200::uint)) / real (unat (256::uint))\<rceil> \<and>
        unat (snd (GetLevelGrids cv0 0 200 200 256)) = nat \<lceil>real (unat (200::uint)) / real (unat (256::uint))\<rceil>"
    by (rule GetLevelGrids_ceiling) simp_all
  then have "unat (fst (GetLevelGrids cv0 0 200 200 256)) = 1" "unat (snd (GetLevelGrids cv0 0 200 200 256)) = 1"
    by simp_all
  then have "GetLevelGrids cv0 0 200 200 256 = (1, 1)"
    by (simp add: prod_eq_iff word_unat_eq_iff)
  then show ?thesis
    by (simp add: core_area_sum_def opt_200_0_def cells_1 core_region_def area_def
        ComputeTileRect_def ZR_def)
qed

subsection \<open>C4: level 0 is a single tile\<close>

text \<open>
  C4, as stated (for all positive dimensions and tile sizes, halving \<open>GetMaxLevel\<close> times
  gives a 1 by 1 image, and the grid of level 0 is a single tile), fails.
  For \<open>2 ^ 49 + 1\<close> by 1, \<open>GetMaxLevel\<close> is 49, and 49 halvings leave 2 by 1, in the
  specification's arithmetic and in the code's: with the tile size \<open>2 ^ 49 + 1\<close>, \<open>Generate\<close>
  returns, and its tile of level 0 is cut from the working image that \<^verbatim>\<open>Thumbnail\<close> was asked
  to make 2 by 1.
  For \<open>2 ^ 31\<close> by 1 with tile size 1, \<open>Generate\<close> panics in the \<^verbatim>\<open>wg.Add\<close> of the first
  level and computes no grid for level 0.
\<close>

theorem downsample_counterexample:
  "GetMaxLevel (uint_conv ext_dims) (Width opt_wide) (Height opt_wide) = 49 \<and>
   (half (uint_conv ext_dims) ^^ 49) (Width opt_wide) = 2 \<and>
   (downsample_dims ^^ 49) (unat (Width opt_wide), unat (Height opt_wide)) = (2, 1) \<and>
   map_sum id (map (\<lambda>t. (t_col t, t_row t, t_m t)) \<circ> filter (\<lambda>t. t_level t = 0) \<circ> g_tasks)
     (Generate ext_dims (562949953421313, 1) opt_wide) = Inr [(0, 0, (2, 1))] \<and>
   0 < unat (Width opt_big) \<and> 0 < unat (Height opt_big) \<and> 0 < unat (TileSize opt_big) \<and>
   Generate ext0 () opt_big = Inl NegativeCounter"
proof -
  have W: "Width opt_wide = 562949953421313" "Height opt_wide = 1"
    by (simp_all add: opt_wide_def)
  have L: "GetMaxLevel (uint_conv ext_dims) 562949953421313 1 = 49" by (rule GetMaxLevel_2p49_1)
  have "unat ((half (uint_conv ext_dims) ^^ 49) (562949953421313 :: uint)) = 2 ^ (49 - 49) + 1"
    by (rule half_power_plus_one) simp_all
  then have "unat ((half (uint_conv ext_dims) ^^ 49) (562949953421313 :: uint)) = unat (2 :: uint)" by simp
  then have hf: "(half (uint_conv ext_dims) ^^ 49) (562949953421313 :: uint) = 2"
    by (simp only: word_unat_eq_iff)
  have "(downsample_dims ^^ 49) (2 ^ 49 + 1, 1) = (2 ^ (49 - 49) + 1, 1)"
    by (rule downsample_power_plus_one) simp
  then have ds: "(downsample_dims ^^ 49) (unat (562949953421313 :: uint), unat (1 :: uint)) = (2, 1)"
    by simp
  have ob: "0 < unat (Width opt_big)" "0 < unat (Height opt_big)" "0 < unat (TileSize opt_big)"
    by (simp_all add: opt_big_def)
  obtain g where g: "Generate ext_dims (562949953421313, 1) opt_wide = Inr g"
    using opt_wide_run(2) by blast
  have run: "map_sum id (map (\<lambda>t. (t_col t, t_row t, t_m t)) \<circ> filter (\<lambda>t. t_level t = 0) \<circ> g_tasks)
     (Generate ext_dims (562949953421313, 1) opt_wide) = Inr [(0, 0, (2, 1))]"
    unfolding g using opt_wide_run(1) [OF g] by simp
  show ?thesis
    unfolding W using L hf ds ob run Generate_big [of ext0 "()"] by simp
qed

text \<open>
  C4, amended: for positive width and height up to \<open>2 ^ 48\<close>, a positive tile size and a
  pyramid of fewer than \<open>2 ^ 31\<close> tiles, halving \<open>GetMaxLevel\<close> times gives 1 by 1, in the
  specification's arithmetic \<open>(ceil(w/2), ceil(h/2))\<close> and in the code's
  \<^verbatim>\<open>uint(math.Ceil(float64(x) / 2))\<close>; \<open>Generate\<close> returns, and the tile tasks it has started
  for level 0 are exactly the one for column 0, row 0.
\<close>

theorem Generate_level0_single_tile:
  assumes "0 < unat (Width opt)" "unat (Width opt) \<le> 2 ^ 48"
    "0 < unat (Height opt)" "unat (Height opt) \<le> 2 ^ 48" "0 < unat (TileSize opt)"
    "tile_count (uint_conv ext) opt < 2 ^ 31"
  shows "(downsample_dims ^^ unat (GetMaxLevel (uint_conv ext) (Width opt) (Height opt)))
            (unat (Width opt), unat (Height opt)) = (1, 1) \<and>
         (half (uint_conv ext) ^^ unat (GetMaxLevel (uint_conv ext) (Width opt) (Height opt)))
            (Width opt) = 1 \<and>
         (half (uint_conv ext) ^^ unat (GetMaxLevel (uint_conv ext) (Width opt) (Height opt)))
            (Height opt) = 1 \<and>
         (\<exists>g. Generate ext m opt = Inr g \<and>
            map (\<lambda>t. (t_col t, t_row t)) (filter (\<lambda>t. t_level t = 0) (g_tasks g)) = [(0, 0)])"
proof -
  define cv where "cv = uint_conv ext"
  define L where "L = GetMaxLevel cv (Width opt) (Height opt)"
  define xs :: "uint list" where "xs = map word_of_nat (rev [1 ..< Suc (unat L)])"
  have b: "unat L \<le> 53" "unat (Width opt) \<le> 2 ^ unat L" "unat (Height opt) \<le> 2 ^ unat L"
    unfolding L_def using assms(1-4) by (simp_all add: max_level_bound)
  have d: "(downsample_dims ^^ unat L) (unat (Width opt), unat (Height opt)) = (1, 1)"
    using assms(1) b(2) assms(3) b(3) by (rule downsample_iter)
  have w: "(half cv ^^ unat L) (Width opt) = 1"
    using assms(1) b(2) b(1) by (rule half_iter)
  have h: "(half cv ^^ unat L) (Height opt) = 1"
    using assms(3) b(3) b(1) by (rule half_iter)
  have len: "length xs = unat L" by (simp add: xs_def)
  have ld: "levels_down L = xs @ [0]" unfolding xs_def by (rule levels_down_snoc)
  obtain tm' where ap: "pyramid_tiles ext opt m (xs @ [0])
      = pyramid_tiles ext opt m xs @ pyramid_tiles ext ((next_opt (uint_conv ext) ^^ length xs) opt) tm' [0]"
    using pyramid_tiles_append [of ext opt m xs "[0]"] by blast
  have "0 \<notin> set xs" unfolding xs_def by (rule zero_notin_upper_levels)
  then have f1: "filter (\<lambda>t. t_level t = 0) (pyramid_tiles ext opt m xs) = []"
    by (rule pyramid_tiles_filter)
  define o1 where "o1 = (next_opt (uint_conv ext) ^^ length xs) opt"
  have o1: "Width o1 = 1" "Height o1 = 1" "0 < unat (TileSize o1)"
    unfolding o1_def next_opt_iter len using w h assms(5) by (simp_all add: cv_def)
  have f0: "map (\<lambda>t. (t_col t, t_row t))
      (filter (\<lambda>t. t_level t = 0) (pyramid_tiles ext o1 tm' [0])) = [(0, 0)]"
    by (simp add: level_tiles_unit [OF o1])
  have "map (\<lambda>t. (t_col t, t_row t)) (filter (\<lambda>t. t_level t = 0) (all_tiles ext m opt)) = [(0, 0)]"
    unfolding all_tiles_def L_def [unfolded cv_def, symmetric] ld ap o1_def [symmetric]
    using f1 f0 by simp
  with Generate_ok [OF assms(6), of m] d w h show ?thesis
    by (simp add: L_def cv_def)
qed

theorem Generate_level0_single_tile_witness:
  "0 < unat (Width opt_2x1) \<and> unat (Width opt_2x1) \<le> 2 ^ 48 \<and>
   0 < unat (Height opt_2x1) \<and> unat (Height opt_2x1) \<le> 2 ^ 48 \<and>
   0 < unat (TileSize opt_2x1) \<and> tile_count (uint_conv ext0) opt_2x1 < 2 ^ 31 \<and>
   (downsample_dims ^^ unat (GetMaxLevel (uint_conv ext0) (Width opt_2x1) (Height opt_2x1)))
      (unat (Width opt_2x1), unat (Height opt_2x1)) = (1, 1) \<and>
   (half (uint_conv ext0) ^^ unat (GetMaxLevel (uint_conv ext0) (Width opt_2x1) (Height opt_2x1)))
      (Width opt_2x1) = 1 \<and>
   (\<exists>g. Generate ext0 () opt_2x1 = Inr g \<and>
      map (\<lambda>t. (t_col t, t_row t)) (filter (\<lambda>t. t_level t = 0) (g_tasks g)) = [(0, 0)])"
proof -
  have c: "tile_count (uint_conv ext0) opt_2x1 < 2 ^ 31"
    by (simp add: opt_2x1_pyramid(1))
  have d: "0 < unat (Width opt_2x1)" "unat (Width opt_2x1) \<le> 2 ^ 48"
    "0 < unat (Height opt_2x1)" "unat (Height opt_2x1) \<le> 2 ^ 48" "0 < unat (TileSize opt_2x1)"
    by (simp_all add: opt_2x1_def)
  from Generate_level0_single_tile [OF d c, of "()"] c d show ?thesis by blast
qed

subsection \<open>C5: the maximum level\<close>

text \<open>
  C5, as stated (for all positive width and height \<open>GetMaxLevel\<close> is the ceiling of the
  binary logarithm of the larger one), fails where the conversion to \<^verbatim>\<open>float64\<close> rounds:
  \<open>2 ^ 53 + 1\<close> becomes \<open>2 ^ 53\<close>, whose logarithm is exactly 53, while the ceiling of the
  logarithm of \<open>2 ^ 53 + 1\<close> is 54.
\<close>

theorem GetMaxLevel_counterexample:
  "unat (GetMaxLevel cv0 9007199254740993 1) = 53 \<and>
   nat \<lceil>log 2 (real (max (unat (9007199254740993 :: uint)) (unat (1 :: uint))))\<rceil> = 54"
  by (simp add: GetMaxLevel_tie ceiling_log2_tie)

text \<open>
  C5, amended: for positive width and height up to \<open>2 ^ 48\<close>, \<open>GetMaxLevel\<close> is the ceiling
  of the binary logarithm of the larger one. Up to there the conversion is exact and the
  rounded logarithm of a number above \<open>2 ^ k\<close> stays above \<open>k\<close>. The examples of the
  claim, 8 for 256 by 256, 9 for 257 by 256 and 0 for 1 by 1, are instances.
\<close>

theorem GetMaxLevel_ceil_log2:
  assumes "0 < unat width" "unat width \<le> 2 ^ 48" "0 < unat height" "unat height \<le> 2 ^ 48"
  shows "unat (GetMaxLevel cv width height)
           = nat \<lceil>log 2 (real (max (unat width) (unat height)))\<rceil>"
  using assms by (rule GetMaxLevel_ceiling_log)

theorem GetMaxLevel_ceil_log2_witness:
  "GetMaxLevel cv0 256 256 = 8 \<and> GetMaxLevel cv0 257 256 = 9 \<and> GetMaxLevel cv0 1 1 = 0"
proof -
  have "nat \<lceil>log 2 (real (256::nat))\<rceil> = 7 + 1" by (rule nat_ceiling_log2) simp_all
  then have "unat (GetMaxLevel cv0 256 256) = 8"
    using GetMaxLevel_ceil_log2 [of 256 256 cv0] by simp
  moreover have "nat \<lceil>log 2 (real (257::nat))\<rceil> = 8 + 1" by (rule nat_ceiling_log2) simp_all
  then have "unat (GetMaxLevel cv0 257 256) = 9"
    using GetMaxLevel_ceil_log2 [of 257 256 cv0] by simp
  moreover have "unat (GetMaxLevel cv0 1 1) = 0"
    using GetMaxLevel_ceil_log2 [of 1 1 cv0] by simp
  ultimately show ?thesis by (simp add: word_unat_eq_iff)
qed

subsection \<open>C6: the grid of a level\<close>

text \<open>
  C6, as stated (for all positive width, height and tile size the grid is the ceiling of
  the quotients), fails where \<^verbatim>\<open>float64(width)\<close> rounds: a width of \<open>2 ^ 53 + 1\<close> with tile
  size 1 gives \<open>2 ^ 53\<close> columns.
\<close>

theorem GetLevelGrids_counterexample:
  "unat (fst (GetLevelGrids cv0 0 9007199254740993 1 1)) = 9007199254740992 \<and>
   nat \<lceil>real (unat (9007199254740993 :: uint)) / real (unat (1 :: uint))\<rceil> = 9007199254740993"
  by (simp add: GetLevelGrids_tie)

text \<open>
  C6, amended: for positive width, height and tile size up to \<open>2 ^ 53\<close> (the integers that
  \<^verbatim>\<open>float64\<close> holds exactly), \<open>GetLevelGrids\<close> returns the ceiling of width / tileSize and
  of height / tileSize; the rounding of the quotient never moves it across an integer.
  (500, 500, 256) gives (2, 2) and (256, 256, 256) gives (1, 1).
\<close>

theorem GetLevelGrids_ceil_div:
  assumes "0 < unat width" "unat width \<le> 2 ^ 53" "0 < unat height" "unat height \<le> 2 ^ 53"
    "0 < unat tileSize" "unat tileSize \<le> 2 ^ 53"
  shows "unat (fst (GetLevelGrids cv level width height tileSize))
           = nat \<lceil>real (unat width) / real (unat tileSize)\<rceil> \<and>
         unat (snd (GetLevelGrids cv level width height tileSize))
           = nat \<lceil>real (unat height) / real (unat tileSize)\<rceil>"
  using assms by (simp add: GetLevelGrids_def ceil_div_uint del: of_nat_unat)

theorem GetLevelGrids_ceil_div_witness:
  "GetLevelGrids cv0 9 500 500 256 = (2, 2) \<and> GetLevelGrids cv0 8 256 256 256 = (1, 1)"
proof -
  have a: "unat (fst (GetLevelGrids cv0 9 500 500 256)) = 2 \<and>
           unat (snd (GetLevelGrids cv0 9 500 500 256)) = 2"
    using GetLevelGrids_ceil_div [of 500 500 256 cv0 9] by simp
  have b: "unat (fst (GetLevelGrids cv0 8 256 256 256)) = 1 \<and>
           unat (snd (GetLevelGrids cv0 8 256 256 256)) = 1"
    using GetLevelGrids_ceil_div [of 256 256 256 cv0 8] by simp
  have "fst (GetLevelGrids cv0 9 500 500 256) = 2" "snd (GetLevelGrids cv0 9 500 500 256) = 2"
    using a by (simp_all add: word_unat_eq_iff)
  moreover have "fst (GetLevelGrids cv0 8 256 256 256) = 1" "snd (GetLevelGrids cv0 8 256 256 256) = 1"
    using b by (simp_all add: word_unat_eq_iff)
  ultimately show ?thesis by (simp add: prod_eq_iff)
qed

subsection \<open>C7: configuration errors\<close>

text \<open>
  C7, as stated (an invalid configuration makes \<open>Generate\<close> fail with a configuration error
  before any work starts), fails: with the format \<^verbatim>\<open>gif\<close> on a 1 by 1 image \<open>Generate\<close>
  returns nil, having started the tile task of level 0, which called the saver with an
  empty buffer.
\<close>

theorem Generate_config_counterexample:
  "Format opt_gif \<noteq> JPEG \<and> Format opt_gif \<noteq> PNG \<and>
   Generate ext0 () opt_gif =
     Inr \<lparr>g_opt = opt_gif,
          g_tasks = [\<lparr>t_dirPath = ''out'', t_saver = Saver opt_gif, t_level = 0, t_col = 0,
                      t_row = 0, t_format = ''gif'', t_m = ()\<rparr>],
          g_done = [\<lparr>stored = [(''out/0/0_0.gif'', [])], returned = None\<rparr>],
          g_err = None\<rparr>"
proof -
  have u: "Width opt_gif = 1" "Height opt_gif = 1" "0 < unat (TileSize opt_gif)"
    by (simp_all add: opt_gif_def)
  have "tile_count (uint_conv ext0) opt_gif < 2 ^ 31"
    using unit_pyramid(1) [OF u, of "uint_conv ext0"] by simp
  from Generate_ok [OF this, of "()"]
  have "Generate ext0 () opt_gif =
     Inr \<lparr>g_opt = opt_gif,
          g_tasks = [\<lparr>t_dirPath = ''out'', t_saver = Saver opt_gif, t_level = 0, t_col = 0,
                      t_row = 0, t_format = ''gif'', t_m = ()\<rparr>],
          g_done = [\<lparr>stored = [(''out/0/0_0.gif'', [])], returned = None\<rparr>],
          g_err = None\<rparr>"
    unfolding unit_pyramid(2) [OF u] unit_pyramid(3) [OF u]
    by (simp add: run_task_def SaveTile_def)
      (simp add: opt_gif_def ext0_def PNG_def JPEG_def tile_path_000)
  moreover have "Format opt_gif \<noteq> JPEG" "Format opt_gif \<noteq> PNG"
    by (simp_all add: opt_gif_def JPEG_def PNG_def)
  ultimately show ?thesis by simp
qed

text \<open>
  C7, amended: \<open>Generate\<close> never returns a configuration error: whenever it returns, for
  whatever tile size, width, height and format, its result is nil. With a format that is
  neither jpeg nor png and a pyramid of fewer than \<open>2 ^ 31\<close> tiles it does return, having
  started the tile tasks of the pyramid as for any other format, and each of them has
  called the saver with an empty buffer at its path
  \<^verbatim>\<open>{root}/{level}/{col}_{row}.{format}\<close> and returned the saver's answer.
\<close>

theorem Generate_unknown_format:
  "(Generate ext m opt = Inr g \<longrightarrow> g_err g = None) \<and>
   (Format opt \<noteq> JPEG \<and> Format opt \<noteq> PNG \<and> tile_count (uint_conv ext) opt < 2 ^ 31 \<longrightarrow>
      (\<exists>g'. Generate ext m opt = Inr g' \<and> g_tasks g' = all_tiles ext m opt \<and>
         g_done g' = map (\<lambda>t.
           \<lparr>stored = [(tile_path (DirPath opt) (t_level t) (t_col t) (t_row t) (Format opt), [])],
            returned = Saver opt (tile_path (DirPath opt) (t_level t) (t_col t) (t_row t) (Format opt)) []\<rparr>)
           (g_tasks g')))"
proof (intro conjI impI)
  assume "Generate ext m opt = Inr g"
  then show "g_err g = None" by (rule Generate_nil)
next
  assume a: "Format opt \<noteq> JPEG \<and> Format opt \<noteq> PNG \<and> tile_count (uint_conv ext) opt < 2 ^ 31"
  have "run_task ext t
      = \<lparr>stored = [(tile_path (DirPath opt) (t_level t) (t_col t) (t_row t) (Format opt), [])],
         returned = Saver opt (tile_path (DirPath opt) (t_level t) (t_col t) (t_row t) (Format opt)) []\<rparr>"
    if "t \<in> set (all_tiles ext m opt)" for t
    using pyramid_tiles_fields [OF that [unfolded all_tiles_def]] a
    by (simp add: run_task_def SaveTile_unknown_format)
  then have "map (run_task ext) (all_tiles ext m opt) = map (\<lambda>t.
           \<lparr>stored = [(tile_path (DirPath opt) (t_level t) (t_col t) (t_row t) (Format opt), [])],
            returned = Saver opt (tile_path (DirPath opt) (t_level t) (t_col t) (t_row t) (Format opt)) []\<rparr>)
           (all_tiles ext m opt)"
    by simp
  with Generate_ok [of ext opt m] a
  show "\<exists>g'. Generate ext m opt = Inr g' \<and> g_tasks g' = all_tiles ext m opt \<and>
         g_done g' = map (\<lambda>t.
           \<lparr>stored = [(tile_path (DirPath opt) (t_level t) (t_col t) (t_row t) (Format opt), [])],
            returned = Saver opt (tile_path (DirPath opt) (t_level t) (t_col t) (t_row t) (Format opt)) []\<rparr>)
           (g_tasks g')"
    by simp
qed

theorem Generate_unknown_format_witness:
  "Format opt_gif \<noteq> JPEG \<and> Format opt_gif \<noteq> PNG \<and> tile_count (uint_conv ext0) opt_gif < 2 ^ 31 \<and>
   (\<exists>g. Generate ext0 () opt_gif = Inr g \<and> g_err g = None \<and>
      g_done g = [\<lparr>stored = [(''out/0/0_0.gif'', [])], returned = None\<rparr>])"
proof -
  have u: "Width opt_gif = 1" "Height opt_gif = 1" "0 < unat (TileSize opt_gif)"
    by (simp_all add: opt_gif_def)
  have c: "tile_count (uint_conv ext0) opt_gif < 2 ^ 31"
    using unit_pyramid(1) [OF u, of "uint_conv ext0"] by simp
  have f: "Format opt_gif \<noteq> JPEG" "Format opt_gif \<noteq> PNG"
    by (simp_all add: opt_gif_def JPEG_def PNG_def)
  from Generate_unknown_format [of ext0 "()" opt_gif] c f
  obtain g where g: "Generate ext0 () opt_gif = Inr g" "g_tasks g = all_tiles ext0 () opt_gif"
    "g_done g = map (\<lambda>t.
           \<lparr>stored = [(tile_path (DirPath opt_gif) (t_level t) (t_col t) (t_row t) (Format opt_gif), [])],
            returned = Saver opt_gif (tile_path (DirPath opt_gif) (t_level t) (t_col t) (t_row t) (Format opt_gif)) []\<rparr>)
           (g_tasks g)"
    by blast
  from Generate_unknown_format [of ext0 "()" opt_gif g] g(1)
  have n: "g_err g = None" by blast
  have "g_done g = [\<lparr>stored = [(''out/0/0_0.gif'', [])], returned = None\<rparr>]"
    unfolding g(3) g(2) unit_pyramid(2) [OF u]
    by (simp add: opt_gif_def tile_path_000)
  with g(1) n c f show ?thesis by blast
qed

subsection \<open>C8: the level loop\<close>

text \<open>
  C8, as stated (\<open>Generate\<close> terminates for every positive-dimension input, its walker
  visiting the levels from \<open>GetMaxLevel\<close> down to 0), fails: for a \<open>2 ^ 31\<close> by 1 image with
  tile size 1 the first level has \<open>2 ^ 31\<close> tiles, \<^verbatim>\<open>wg.Add(int(cols * rows))\<close> makes the
  32-bit counter negative and panics, and no level is walked.
\<close>

theorem Generate_walks_levels_counterexample:
  "0 < unat (Width opt_big) \<and> 0 < unat (Height opt_big) \<and>
   Generate ext0 () opt_big = Inl NegativeCounter"
  by (simp add: Generate_big) (simp add: opt_big_def)

text \<open>
  C8, amended: for a pyramid of fewer than \<open>2 ^ 31\<close> tiles \<open>Generate\<close> returns, under every
  schedule of its tile tasks, all of which have returned by then. The tasks it has started
  are those of the levels from \<open>GetMaxLevel\<close> down to 0, in this order (\<open>levels_down\<close>
  starts at the maximum level, ends at 0 and holds each of its \<open>level + 1\<close> indices once),
  each level with the dimensions halved once per level above it; the tasks of a level are
  one per cell of its grid, column by column, each carrying its level, column and row,
  and no cell twice.
\<close>

theorem Generate_walks_levels:
  assumes "tile_count (uint_conv ext) opt < 2 ^ 31"
  shows "Generate ext m opt =
      Inr \<lparr>g_opt = (next_opt (uint_conv ext)
                      ^^ Suc (unat (GetMaxLevel (uint_conv ext) (Width opt) (Height opt)))) opt,
           g_tasks = pyramid_tiles ext opt m
                       (levels_down (GetMaxLevel (uint_conv ext) (Width opt) (Height opt))),
           g_done = map (run_task ext) (pyramid_tiles ext opt m
                       (levels_down (GetMaxLevel (uint_conv ext) (Width opt) (Height opt)))),
           g_err = None\<rparr> \<and>
    length (levels_down level) = Suc (unat level) \<and> distinct (levels_down level) \<and>
    hd (levels_down level) = level \<and> last (levels_down level) = 0 \<and>
    map (\<lambda>t. (t_level t, t_col t, t_row t)) (level_tiles ext l o' tm)
      = concat (map (\<lambda>c. map (\<lambda>r. (l, c, r))
          (cells (snd (GetLevelGrids (uint_conv ext) l (Width o') (Height o') (TileSize o')))))
          (cells (fst (GetLevelGrids (uint_conv ext) l (Width o') (Height o') (TileSize o'))))) \<and>
    distinct (cells n) \<and> length (cells n) = unat n"
proof -
  have "hd (levels_down level) = level"
    by (cases "level = 0") (simp_all add: levels_down_0 levels_down_rec)
  moreover have "last (levels_down level) = 0"
    by (subst levels_down_snoc) simp
  moreover have "map (\<lambda>t. (t_level t, t_col t, t_row t)) (level_tiles ext l o' tm)
      = concat (map (\<lambda>c. map (\<lambda>r. (l, c, r))
          (cells (snd (GetLevelGrids (uint_conv ext) l (Width o') (Height o') (TileSize o')))))
          (cells (fst (GetLevelGrids (uint_conv ext) l (Width o') (Height o') (TileSize o')))))"
    by (simp add: level_tiles_def map_concat comp_def split: prod.split)
  moreover have "distinct (cells n)"
  proof -
    have "inj_on (word_of_nat :: nat \<Rightarrow> uint) {0 ..< unat n}"
      by (rule inj_on_subset [OF inj_on_word_of_nat [of n]]) auto
    then show ?thesis by (simp add: cells_def distinct_map)
  qed
  ultimately show ?thesis
    using Generate_ok [OF assms, of m]
    by (simp add: all_tiles_def length_levels_down distinct_levels_down length_cells)
qed

theorem Generate_walks_levels_witness:
  "tile_count (uint_conv ext0) opt_2x1 = 3 \<and>
   map_sum id (map (\<lambda>t. (t_level t, t_col t, t_row t)) \<circ> g_tasks) (Generate ext0 () opt_2x1)
     = Inr [(1, 0, 0), (1, 1, 0), (0, 0, 0)]"
proof -
  have c: "tile_count (uint_conv ext0) opt_2x1 = 3" by (rule opt_2x1_pyramid)
  then have "tile_count (uint_conv ext0) opt_2x1 < 2 ^ 31" by simp
  from Generate_walks_levels [OF this, of "()"] show ?thesis
    using opt_2x1_pyramid(2) [of ext0 "()"] by (simp add: c all_tiles_def)
qed

subsection \<open>C9: the Option after Generate\<close>

text \<open>
  C9, as stated (every field of the \<^verbatim>\<open>Option\<close> is unchanged by \<open>Generate\<close>), fails:
  \<open>Generate\<close> assigns to \<^verbatim>\<open>opt.Width\<close> and \<^verbatim>\<open>opt.Height\<close> through the pointer. A width of 2 is
  1 after \<open>Generate\<close> has returned.
\<close>

theorem Generate_frame_counterexample:
  "Width opt_2x1 = 2 \<and> map_sum id (Width \<circ> g_opt) (Generate ext0 () opt_2x1) = Inr 1"
proof -
  have "tile_count (uint_conv ext0) opt_2x1 < 2 ^ 31"
    by (simp add: opt_2x1_pyramid(1))
  from Generate_ok [OF this, of "()"] show ?thesis
    unfolding opt_2x1_pyramid(3)
    by (simp add: opt_2x1_def)
qed

text \<open>
  C9, amended: whenever \<open>Generate\<close> returns it has left \<^verbatim>\<open>DirPath\<close>, \<^verbatim>\<open>Saver\<close>, \<^verbatim>\<open>Format\<close>,
  \<^verbatim>\<open>Overlap\<close> and \<^verbatim>\<open>TileSize\<close> unchanged. \<^verbatim>\<open>Width\<close> and \<^verbatim>\<open>Height\<close> are overwritten: for positive
  width and height up to \<open>2 ^ 48\<close> and a pyramid of fewer than \<open>2 ^ 31\<close> tiles \<open>Generate\<close>
  returns, and both are 1 afterwards.
\<close>

theorem Generate_frame:
  "(Generate ext m opt = Inr g \<longrightarrow>
      DirPath (g_opt g) = DirPath opt \<and> Saver (g_opt g) = Saver opt \<and>
      Format (g_opt g) = Format opt \<and> Overlap (g_opt g) = Overlap opt \<and>
      TileSize (g_opt g) = TileSize opt) \<and>
   (0 < unat (Width opt) \<and> unat (Width opt) \<le> 2 ^ 48 \<and>
    0 < unat (Height opt) \<and> unat (Height opt) \<le> 2 ^ 48 \<and>
    tile_count (uint_conv ext) opt < 2 ^ 31 \<longrightarrow>
      (\<exists>g'. Generate ext m opt = Inr g' \<and> g_opt g' = opt\<lparr>Width := 1, Height := 1\<rparr>))"
proof (rule conjI; rule impI)
  assume "Generate ext m opt = Inr g"
  from Generate_opt [OF this]
  show "DirPath (g_opt g) = DirPath opt \<and> Saver (g_opt g) = Saver opt \<and>
      Format (g_opt g) = Format opt \<and> Overlap (g_opt g) = Overlap opt \<and>
      TileSize (g_opt g) = TileSize opt"
    by (simp add: next_opt_iter del: funpow.simps)
next
  assume a: "0 < unat (Width opt) \<and> unat (Width opt) \<le> 2 ^ 48 \<and>
    0 < unat (Height opt) \<and> unat (Height opt) \<le> 2 ^ 48 \<and>
    tile_count (uint_conv ext) opt < 2 ^ 31"
  define L where "L = unat (GetMaxLevel (uint_conv ext) (Width opt) (Height opt))"
  have b: "L \<le> 53" "unat (Width opt) \<le> 2 ^ L" "unat (Height opt) \<le> 2 ^ L"
    unfolding L_def using a by (simp_all add: max_level_bound)
  have w: "(half (uint_conv ext) ^^ Suc L) (Width opt) = 1"
    using a b by (intro half_iter_Suc) simp_all
  have h: "(half (uint_conv ext) ^^ Suc L) (Height opt) = 1"
    using a b by (intro half_iter_Suc) simp_all
  have "(next_opt (uint_conv ext) ^^ Suc L) opt = opt\<lparr>Width := 1, Height := 1\<rparr>"
    by (simp add: next_opt_iter w h del: funpow.simps)
  with Generate_ok [of ext opt m] a
  show "\<exists>g'. Generate ext m opt = Inr g' \<and> g_opt g' = opt\<lparr>Width := 1, Height := 1\<rparr>"
    by (simp add: L_def del: funpow.simps)
qed

theorem Generate_frame_witness:
  "(\<exists>g. Generate ext0 () opt_2x1 = Inr g \<and> TileSize (g_opt g) = TileSize opt_2x1) \<and>
   0 < unat (Width opt_2x1) \<and> unat (Width opt_2x1) \<le> 2 ^ 48 \<and>
   0 < unat (Height opt_2x1) \<and> unat (Height opt_2x1) \<le> 2 ^ 48 \<and>
   tile_count (uint_conv ext0) opt_2x1 < 2 ^ 31 \<and>
   (\<exists>g'. Generate ext0 () opt_2x1 = Inr g' \<and> g_opt g' = opt_2x1\<lparr>Width := 1, Height := 1\<rparr>)"
proof -
  have c: "tile_count (uint_conv ext0) opt_2x1 < 2 ^ 31"
    by (simp add: opt_2x1_pyramid(1))
  have d: "0 < unat (Width opt_2x1)" "unat (Width opt_2x1) \<le> 2 ^ 48"
    "0 < unat (Height opt_2x1)" "unat (Height opt_2x1) \<le> 2 ^ 48"
    by (simp_all add: opt_2x1_def)
  from Generate_frame [of ext0 "()" opt_2x1] c d
  obtain g' where g: "Generate ext0 () opt_2x1 = Inr g'" "g_opt g' = opt_2x1\<lparr>Width := 1, Height := 1\<rparr>"
    by blast
  from Generate_frame [of ext0 "()" opt_2x1 g'] g(1)
  have "TileSize (g_opt g') = TileSize opt_2x1" by blast
  with g c d show ?thesis by blast
qed

subsection \<open>C10: the left and top edge\<close>

text \<open>
  C10, as stated (when the overlap exceeds \<open>col * tileSize\<close> the left edge wraps around to
  a huge positive value), fails: \<^verbatim>\<open>int(...)\<close> reads the wrapped difference as two's
  complement. For column 1, tile size 256 and overlap 300 the left edge is -44.
\<close>

theorem ComputeTileRect_left_edge_counterexample:
  "unat (1 :: uint) * unat (TileSize opt_300) < unat (Overlap opt_300) \<and>
   Min_X (ComputeTileRect opt_300 1 0 4 4) = - 44"
  by (simp add: ComputeTileRect_def ZR_def opt_300_def)

text \<open>
  C10, amended: for \<open>col \<ge> 1\<close>, in whatever row, the left edge is the exact integer
  \<open>col * tileSize - overlap\<close> whenever that difference lies in the range of \<^verbatim>\<open>int\<close>: the
  intended non-negative value when the overlap is at most \<open>col * tileSize\<close>, and a
  negative one, not a huge positive one, when the overlap exceeds it. Symmetrically for
  \<open>row \<ge> 1\<close>, in whatever column, and the top edge.
\<close>

theorem ComputeTileRect_left_top_edge:
  "(col \<noteq> 0 \<and>
    - (2 ^ 63) \<le> int (unat col * unat (TileSize opt)) - int (unat (Overlap opt)) \<and>
    int (unat col * unat (TileSize opt)) - int (unat (Overlap opt)) < 2 ^ 63 \<longrightarrow>
      Min_X (ComputeTileRect opt col row maxCol maxRow)
        = int (unat col * unat (TileSize opt)) - int (unat (Overlap opt))) \<and>
   (row \<noteq> 0 \<and>
    - (2 ^ 63) \<le> int (unat row * unat (TileSize opt)) - int (unat (Overlap opt)) \<and>
    int (unat row * unat (TileSize opt)) - int (unat (Overlap opt)) < 2 ^ 63 \<longrightarrow>
      Min_Y (ComputeTileRect opt col row maxCol maxRow)
        = int (unat row * unat (TileSize opt)) - int (unat (Overlap opt)))"
proof (intro conjI impI)
  assume a: "col \<noteq> 0 \<and>
    - (2 ^ 63) \<le> int (unat col * unat (TileSize opt)) - int (unat (Overlap opt)) \<and>
    int (unat col * unat (TileSize opt)) - int (unat (Overlap opt)) < 2 ^ 63"
  have "Min_X (ComputeTileRect opt col row maxCol maxRow) = sint (col * TileSize opt - Overlap opt)"
    using a by (simp add: ComputeTileRect_def ZR_def Let_def)
  also have "\<dots> = int (unat col * unat (TileSize opt)) - int (unat (Overlap opt))"
    using a by (intro sint_mult_sub) simp_all
  finally show "Min_X (ComputeTileRect opt col row maxCol maxRow)
        = int (unat col * unat (TileSize opt)) - int (unat (Overlap opt))" .
next
  assume a: "row \<noteq> 0 \<and>
    - (2 ^ 63) \<le> int (unat row * unat (TileSize opt)) - int (unat (Overlap opt)) \<and>
    int (unat row * unat (TileSize opt)) - int (unat (Overlap opt)) < 2 ^ 63"
  have "Min_Y (ComputeTileRect opt col row maxCol maxRow) = sint (row * TileSize opt - Overlap opt)"
    using a by (simp add: ComputeTileRect_def ZR_def Let_def)
  also have "\<dots> = int (unat row * unat (TileSize opt)) - int (unat (Overlap opt))"
    using a by (intro sint_mult_sub) simp_all
  finally show "Min_Y (ComputeTileRect opt col row maxCol maxRow)
        = int (unat row * unat (TileSize opt)) - int (unat (Overlap opt))" .
qed

theorem ComputeTileRect_left_top_edge_witness:
  "Min_X (ComputeTileRect opt_300 1 0 4 4) = - 44 \<and> Min_Y (ComputeTileRect opt_300 0 2 4 4) = 212"
  using ComputeTileRect_left_top_edge [of 1 opt_300 0 4 4]
    ComputeTileRect_left_top_edge [of 0 opt_300 2 4 4]
  by (simp add: opt_300_def)

end
